theory Spec2Isabelle
  imports Complex_Main "HOL-Library.Word" "HOL-Library.Sublist"
begin

unbundle bit_operations_syntax

section \<open>Go strings and the standard-library functions the normalizers call\<close>

text \<open>
  A Go \<^verbatim>\<open>string\<close> is a sequence of bytes, here a \<^typ>\<open>string\<close> whose characters are
  the bytes. \<open>byte c\<close> is the numeric value of the byte. A rune is a code point, a
  \<^typ>\<open>nat\<close>. The functions of this section follow the Go standard library
  (\<^verbatim>\<open>unicode/utf8\<close>, \<^verbatim>\<open>unicode\<close>, \<^verbatim>\<open>strings\<close>, \<^verbatim>\<open>strconv\<close>), which
  \<^verbatim>\<open>main.go\<close> imports.
\<close>

definition byte :: "char \<Rightarrow> nat" where
  "byte c = of_char c"

definition RuneError :: nat where
  "RuneError = 65533"

text \<open>
  \<^verbatim>\<open>utf8.acceptRanges\<close>, by the first byte of a multi-byte sequence: the range the second
  byte must lie in.
\<close>

definition acceptRange :: "nat \<Rightarrow> nat \<times> nat" where
  "acceptRange s0 =
     (if s0 = 224 then (160, 191)
      else if s0 = 237 then (128, 159)
      else if s0 = 240 then (144, 191)
      else if s0 = 244 then (128, 143)
      else (128, 191))"

text \<open>
  \<^verbatim>\<open>utf8.DecodeRuneInString\<close>: the first rune of \<open>s\<close> and its width in bytes; an invalid
  encoding is \<open>(RuneError, 1)\<close>, the empty string \<open>(RuneError, 0)\<close>. First bytes 0x80..0xC1
  and 0xF5..0xFF are invalid; 0xC2..0xDF start two bytes, 0xE0..0xEF three, 0xF0..0xF4
  four. The bit fields that Go joins with \<^verbatim>\<open>|\<close> do not overlap, so they are added.
\<close>

definition DecodeRuneInString :: "string \<Rightarrow> nat \<times> nat" where
  "DecodeRuneInString s =
     (case s of
        [] \<Rightarrow> (RuneError, 0)
      | c0 # t0 \<Rightarrow>
          let s0 = byte c0 in
          if s0 < 128 then (s0, 1)
          else if s0 < 194 \<or> 244 < s0 then (RuneError, 1)
          else
            let sz = (if s0 < 224 then 2 else if s0 < 240 then 3 else 4 :: nat);
                lo = fst (acceptRange s0);
                hi = snd (acceptRange s0)
            in
            if length s < sz then (RuneError, 1)
            else
              (case t0 of
                 [] \<Rightarrow> (RuneError, 1)
               | c1 # t1 \<Rightarrow>
                   let s1 = byte c1 in
                   if s1 < lo \<or> hi < s1 then (RuneError, 1)
                   else if sz \<le> 2 then ((s0 mod 32) * 64 + s1 mod 64, 2)
                   else
                     (case t1 of
                        [] \<Rightarrow> (RuneError, 1)
                      | c2 # t2 \<Rightarrow>
                          let s2 = byte c2 in
                          if s2 < 128 \<or> 191 < s2 then (RuneError, 1)
                          else if sz \<le> 3 then
                            ((s0 mod 16) * 4096 + (s1 mod 64) * 64 + s2 mod 64, 3)
                          else
                            (case t2 of
                               [] \<Rightarrow> (RuneError, 1)
                             | c3 # t3 \<Rightarrow>
                                 let s3 = byte c3 in
                                 if s3 < 128 \<or> 191 < s3 then (RuneError, 1)
                                 else
                                   ((s0 mod 8) * 262144 + (s1 mod 64) * 4096
                                      + (s2 mod 64) * 64 + s3 mod 64, 4)))))"

text \<open>\<^verbatim>\<open>utf8.RuneStart\<close>: the byte is not a continuation byte (\<^verbatim>\<open>b&0xC0 != 0x80\<close>).\<close>

definition RuneStart :: "char \<Rightarrow> bool" where
  "RuneStart c = (\<not> (128 \<le> byte c \<and> byte c < 192))"

text \<open>
  The loop of \<^verbatim>\<open>utf8.DecodeLastRuneInString\<close> that walks back from \<open>start\<close> to \<open>lim0\<close>
  (the variable \<^verbatim>\<open>lim\<close> of the source) and stops at the first byte that can start a
  rune; it ends at \<open>lim0 - 1\<close> when there is none.
\<close>

function find_start :: "string \<Rightarrow> int \<Rightarrow> int \<Rightarrow> int" where
  "find_start s start lim0 =
     (if lim0 \<le> start \<and> 0 \<le> start then
        (case drop (nat start) s of
           [] \<Rightarrow> start
         | c # _ \<Rightarrow> if RuneStart c then start else find_start s (start - 1) lim0)
      else start)"
  by pat_completeness auto
termination
  by (relation "measure (\<lambda>(s, start, lim0). nat (start + 1))") auto

declare find_start.simps [simp del]

text \<open>
  \<^verbatim>\<open>utf8.DecodeLastRuneInString\<close>: the last rune of \<open>s\<close> and its width. It looks back at
  most \<^verbatim>\<open>UTFMax\<close> = 4 bytes for the start of the rune, decodes forward from there, and
  answers \<open>(RuneError, 1)\<close> unless the rune ends where \<open>s\<close> ends.
\<close>

definition DecodeLastRuneInString :: "string \<Rightarrow> nat \<times> nat" where
  "DecodeLastRuneInString s =
     (if s = [] then (RuneError, 0)
      else
        let end = int (length s);
            r = byte (last s)
        in
        if r < 128 then (r, 1)
        else
          let lim0 = max 0 (end - 4);
              start0 = find_start s (end - 2) lim0;
              start = (if start0 < 0 then 0 else start0);
              rs = DecodeRuneInString (drop (nat start) s)
          in
          if start + int (snd rs) \<noteq> end then (RuneError, 1) else rs)"

text \<open>
  \<^verbatim>\<open>unicode.IsSpace\<close>: in Latin-1 the runes \<^verbatim>\<open>\t \n \v \f \r\<close>, space, U+0085 and
  U+00A0; beyond it the \<^verbatim>\<open>White_Space\<close> table (U+1680, U+2000..U+200A, U+2028, U+2029,
  U+202F, U+205F, U+3000).
\<close>

definition IsSpace :: "nat \<Rightarrow> bool" where
  "IsSpace r =
     (if r \<le> 255 then
        r = 9 \<or> r = 10 \<or> r = 11 \<or> r = 12 \<or> r = 13 \<or> r = 32 \<or> r = 133 \<or> r = 160
      else
        r = 5760 \<or> (8192 \<le> r \<and> r \<le> 8202) \<or> r = 8232 \<or> r = 8233 \<or> r = 8239
          \<or> r = 8287 \<or> r = 12288)"

text \<open>The table \<^verbatim>\<open>asciiSpace\<close> of package \<^verbatim>\<open>strings\<close>.\<close>

definition asciiSpace :: "char \<Rightarrow> bool" where
  "asciiSpace c =
     (byte c = 9 \<or> byte c = 10 \<or> byte c = 11 \<or> byte c = 12 \<or> byte c = 13 \<or> byte c = 32)"

text \<open>
  A rune read from a non-empty string is at least one byte wide and no wider than the
  string. The loops below advance by that width, which is why they terminate.
\<close>

lemma DecodeRuneInString_width:
  "s \<noteq> [] \<Longrightarrow> 1 \<le> snd (DecodeRuneInString s) \<and> snd (DecodeRuneInString s) \<le> length s"
  by (auto simp: DecodeRuneInString_def Let_def split: list.splits)

lemma find_start_le: "find_start s start lim0 \<le> start"
proof (induction s start lim0 rule: find_start.induct)
  case (1 s start lim0)
  show ?case
  proof (cases "lim0 \<le> start \<and> 0 \<le> start")
    case True
    then show ?thesis
      using "1.IH" by (subst find_start.simps) (auto split: list.splits)
  next
    case False
    then show ?thesis by (subst find_start.simps) auto
  qed
qed

lemma DecodeLastRuneInString_width:
  assumes ne: "s \<noteq> []"
  shows "1 \<le> snd (DecodeLastRuneInString s) \<and> snd (DecodeLastRuneInString s) \<le> length s"
proof -
  have len: "1 \<le> length s" using ne by (cases s) auto
  show ?thesis
  proof (cases "byte (last s) < 128")
    case True
    then show ?thesis using ne len by (simp add: DecodeLastRuneInString_def Let_def)
  next
    case False
    define start0 where "start0 = find_start s (int (length s) - 2) (max 0 (int (length s) - 4))"
    define start where "start = (if start0 < 0 then 0 else start0)"
    define rs where "rs = DecodeRuneInString (drop (nat start) s)"
    have eq: "DecodeLastRuneInString s =
        (if start + int (snd rs) \<noteq> int (length s) then (RuneError, 1) else rs)"
      using ne False
      by (simp add: DecodeLastRuneInString_def Let_def start0_def start_def rs_def)
    have nonneg: "0 \<le> start" by (simp add: start_def)
    have "start0 \<le> int (length s) - 2" unfolding start0_def by (rule find_start_le)
    then have lt: "start < int (length s)" using len ne by (auto simp: start_def)
    then have dne: "drop (nat start) s \<noteq> []" using nonneg by simp
    have w: "1 \<le> snd rs \<and> snd rs \<le> length (drop (nat start) s)"
      unfolding rs_def using dne by (rule DecodeRuneInString_width)
    show ?thesis
      using eq w len by (auto split: if_splits)
  qed
qed

text \<open>
  \<^verbatim>\<open>strings.indexFunc(s, f, truth)\<close>: the byte index of the first rune \<open>r\<close> with
  \<open>f r = truth\<close>, or \<open>- 1\<close>. \<open>indexFunc_from\<close> is its \<^verbatim>\<open>for i, r := range s\<close> loop from
  the byte index \<open>i\<close> on.
\<close>

function indexFunc_from :: "string \<Rightarrow> (nat \<Rightarrow> bool) \<Rightarrow> bool \<Rightarrow> nat \<Rightarrow> int" where
  "indexFunc_from s f truth i =
     (if length s \<le> i then - 1
      else
        let rs = DecodeRuneInString (drop i s) in
        if f (fst rs) = truth then int i
        else indexFunc_from s f truth (i + snd rs))"
  by pat_completeness auto
termination
proof (relation "measure (\<lambda>(s, f, truth, i). length s - i)")
  show "wf (measure (\<lambda>(s, f, truth, i). length s - i))" by simp
next
  fix s :: string and f :: "nat \<Rightarrow> bool" and truth :: bool and i :: nat and rs :: "nat \<times> nat"
  assume a: "\<not> length s \<le> i" and r: "rs = DecodeRuneInString (drop i s)"
  have "drop i s \<noteq> []" using a by simp
  then have "1 \<le> snd rs" unfolding r using DecodeRuneInString_width by blast
  then show "((s, f, truth, i + snd rs), (s, f, truth, i)) \<in> measure (\<lambda>(s, f, truth, i). length s - i)"
    using a by simp
qed

declare indexFunc_from.simps [simp del]

definition indexFunc :: "string \<Rightarrow> (nat \<Rightarrow> bool) \<Rightarrow> bool \<Rightarrow> int" where
  "indexFunc s f truth = indexFunc_from s f truth 0"

text \<open>
  \<^verbatim>\<open>strings.lastIndexFunc(s, f, truth)\<close>: the byte index of the last rune \<open>r\<close> with
  \<open>f r = truth\<close>, or \<open>- 1\<close>; it decodes runes from the end of \<open>s\<close>.
\<close>

function lastIndexFunc :: "string \<Rightarrow> (nat \<Rightarrow> bool) \<Rightarrow> bool \<Rightarrow> int" where
  "lastIndexFunc s f truth =
     (if s = [] then - 1
      else
        let rs = DecodeLastRuneInString s;
            i = length s - snd rs
        in
        if f (fst rs) = truth then int i
        else lastIndexFunc (take i s) f truth)"
  by pat_completeness auto
termination
proof (relation "measure (\<lambda>(s, f, truth). length s)")
  show "wf (measure (\<lambda>(s, f, truth). length s))" by simp
next
  fix s :: string and f :: "nat \<Rightarrow> bool" and truth :: bool and rs :: "nat \<times> nat" and i :: nat
  assume a: "s \<noteq> []" and r: "rs = DecodeLastRuneInString s" and i: "i = length s - snd rs"
  have "1 \<le> snd rs \<and> snd rs \<le> length s" unfolding r using a by (rule DecodeLastRuneInString_width)
  then show "((take i s, f, truth), (s, f, truth)) \<in> measure (\<lambda>(s, f, truth). length s)"
    using a i by simp
qed

declare lastIndexFunc.simps [simp del]

text \<open>
  \<^verbatim>\<open>strings.TrimLeftFunc\<close>, \<^verbatim>\<open>strings.TrimRightFunc\<close> and \<^verbatim>\<open>strings.TrimFunc\<close>. In
  \<open>TrimRightFunc\<close> the index \<open>i\<close> is \<open>- 1\<close> or that of a rune of \<open>s\<close>, so \<open>s ! nat i\<close> is
  read only inside \<open>s\<close>.
\<close>

definition TrimLeftFunc :: "string \<Rightarrow> (nat \<Rightarrow> bool) \<Rightarrow> string" where
  "TrimLeftFunc s f =
     (let i = indexFunc s f False in
      if i = - 1 then [] else drop (nat i) s)"

definition TrimRightFunc :: "string \<Rightarrow> (nat \<Rightarrow> bool) \<Rightarrow> string" where
  "TrimRightFunc s f =
     (let i = lastIndexFunc s f False in
      if 0 \<le> i \<and> 128 \<le> byte (s ! nat i) then
        take (nat i + snd (DecodeRuneInString (drop (nat i) s))) s
      else take (nat (i + 1)) s)"

definition TrimFunc :: "string \<Rightarrow> (nat \<Rightarrow> bool) \<Rightarrow> string" where
  "TrimFunc s f = TrimRightFunc (TrimLeftFunc s f) f"

text \<open>
  \<^verbatim>\<open>strings.TrimSpace\<close>. The first loop drops leading ASCII white space; at a byte of
  128 or more it hands what is left to \<^verbatim>\<open>TrimFunc(s[start:], unicode.IsSpace)\<close>
  (\<open>Inl\<close>). Otherwise the second loop drops trailing ASCII white space, and at a byte
  of 128 or more hands over to \<^verbatim>\<open>TrimRightFunc(s[start:stop], unicode.IsSpace)\<close>.
\<close>

fun TrimSpace_start :: "string \<Rightarrow> string + string" where
  "TrimSpace_start [] = Inr []"
| "TrimSpace_start (c # cs) =
     (if 128 \<le> byte c then Inl (TrimFunc (c # cs) IsSpace)
      else if \<not> asciiSpace c then Inr (c # cs)
      else TrimSpace_start cs)"

function TrimSpace_stop :: "string \<Rightarrow> string" where
  "TrimSpace_stop s =
     (if s = [] then []
      else
        let c = last s in
        if 128 \<le> byte c then TrimRightFunc s IsSpace
        else if \<not> asciiSpace c then s
        else TrimSpace_stop (butlast s))"
  by pat_completeness auto
termination
  by (relation "measure length") auto

declare TrimSpace_stop.simps [simp del]

definition TrimSpace :: "string \<Rightarrow> string" where
  "TrimSpace s =
     (case TrimSpace_start s of
        Inl r \<Rightarrow> r
      | Inr t \<Rightarrow> TrimSpace_stop t)"

text \<open>
  \<^verbatim>\<open>strings.ReplaceAll(s, old, new)\<close>, which is \<^verbatim>\<open>Replace(s, old, new, -1)\<close>: every
  non-overlapping occurrence of \<open>old\<close>, found from left to right, is replaced
  (\<open>replace_scan\<close>). For an empty \<open>old\<close> the replacement is put at the beginning and
  after every rune (\<open>insert_after_runes\<close>).
\<close>

function replace_scan :: "string \<Rightarrow> string \<Rightarrow> string \<Rightarrow> string" where
  "replace_scan s old new =
     (if s = [] \<or> old = [] then s
      else if prefix old s then new @ replace_scan (drop (length old) s) old new
      else hd s # replace_scan (tl s) old new)"
  by pat_completeness auto
termination
  by (relation "measure (\<lambda>(s, old, new). length s)") auto

declare replace_scan.simps [simp del]

function insert_after_runes :: "string \<Rightarrow> string \<Rightarrow> string" where
  "insert_after_runes s new =
     (if s = [] then []
      else
        let wid = snd (DecodeRuneInString s) in
        take wid s @ new @ insert_after_runes (drop wid s) new)"
  by pat_completeness auto
termination
proof (relation "measure (\<lambda>(s, new). length s)")
  show "wf (measure (\<lambda>(s, new). length s))" by simp
next
  fix s new :: string and wid :: nat
  assume a: "s \<noteq> []" and w: "wid = snd (DecodeRuneInString s)"
  have "1 \<le> wid" unfolding w using a DecodeRuneInString_width by blast
  then show "((drop wid s, new), (s, new)) \<in> measure (\<lambda>(s, new). length s)"
    using a by simp
qed

declare insert_after_runes.simps [simp del]

definition ReplaceAll :: "string \<Rightarrow> string \<Rightarrow> string \<Rightarrow> string" where
  "ReplaceAll s old new =
     (if old = new then s
      else if old = [] then new @ insert_after_runes s new
      else replace_scan s old new)"

text \<open>
  The errors of package \<^verbatim>\<open>strconv\<close>: \<^verbatim>\<open>strconv.ErrSyntax\<close> and \<^verbatim>\<open>strconv.ErrRange\<close>
  inside a \<^verbatim>\<open>*NumError\<close>. A result is the pair of the value and the error,
  \<open>None\<close> for \<^verbatim>\<open>nil\<close>.
\<close>

datatype NumError = ErrSyntax | ErrRange

text \<open>
  \<^verbatim>\<open>lower(c)\<close> of \<^verbatim>\<open>strconv\<close>, and the value of a digit in \<^verbatim>\<open>ParseUint\<close>: decimal
  digits and letters, \<open>None\<close> for any other byte.
\<close>

definition lower :: "char \<Rightarrow> nat" where
  "lower c = byte c OR 32"

definition digit_value :: "char \<Rightarrow> nat option" where
  "digit_value c =
     (if 48 \<le> byte c \<and> byte c \<le> 57 then Some (byte c - 48)
      else if 97 \<le> lower c \<and> lower c \<le> 122 then Some (lower c - 97 + 10)
      else None)"

text \<open>
  \<^verbatim>\<open>strconv.ParseUint(s, 10, 64)\<close>. The loop over the bytes of \<open>s\<close> with the
  \<^verbatim>\<open>uint64\<close> accumulator \<open>n\<close>: a byte that is not a digit below the base is a syntax
  error; \<open>n\<close> at or above the cutoff \<open>2^64 div 10 + 1\<close>, or a sum that wraps around, is
  a range error with the value \<open>2^64 - 1\<close>. The base is given, so no prefix and no
  underscore is read.
\<close>

fun ParseUint_loop :: "64 word \<Rightarrow> string \<Rightarrow> 64 word \<times> NumError option" where
  "ParseUint_loop n [] = (n, None)"
| "ParseUint_loop n (c # cs) =
     (case digit_value c of
        None \<Rightarrow> (0, Some ErrSyntax)
      | Some d \<Rightarrow>
          if 10 \<le> d then (0, Some ErrSyntax)
          else if 1844674407370955162 \<le> n then (18446744073709551615, Some ErrRange)
          else
            let n10 = n * 10;
                n1 = n10 + of_nat d
            in
            if n1 < n10 \<or> 18446744073709551615 < n1 then (18446744073709551615, Some ErrRange)
            else ParseUint_loop n1 cs)"

definition ParseUint :: "string \<Rightarrow> 64 word \<times> NumError option" where
  "ParseUint s = (if s = [] then (0, Some ErrSyntax) else ParseUint_loop 0 s)"

text \<open>
  \<^verbatim>\<open>strconv.ParseInt(s, 10, 64)\<close>: an optional sign, then \<open>ParseUint\<close>. A syntax error
  gives 0; a value that does not fit gives the nearest \<^verbatim>\<open>int64\<close> together with a range
  error.
\<close>

definition ParseInt :: "string \<Rightarrow> 64 word \<times> NumError option" where
  "ParseInt s =
     (if s = [] then (0, Some ErrSyntax)
      else
        let neg = (hd s = CHR ''-'');
            s1 = (if hd s = CHR ''+'' \<or> hd s = CHR ''-'' then tl s else s);
            r = ParseUint s1;
            un = fst r;
            err = snd r
        in
        if err \<noteq> None \<and> err \<noteq> Some ErrRange then (0, err)
        else if \<not> neg \<and> 9223372036854775808 \<le> un then
          (9223372036854775807, Some ErrRange)
        else if neg \<and> 9223372036854775808 < un then
          (- 9223372036854775808, Some ErrRange)
        else (if neg then - un else un, None))"

text \<open>
  \<^verbatim>\<open>func parsePercentage(val string) (int64, error)\<close>: the result of
  \<^verbatim>\<open>strconv.ParseInt\<close> is returned as it is, value and error.
\<close>

definition parsePercentage :: "string \<Rightarrow> 64 word \<times> NumError option" where
  "parsePercentage val = ParseInt (TrimSpace (ReplaceAll val ''%'' ''''))"

text \<open>
  \<^verbatim>\<open>func parseMemory(val string) (int64, error)\<close>: 0 on any error, else the number
  times \<open>1024 * 1024\<close> in \<^verbatim>\<open>int64\<close> arithmetic, which wraps around.
\<close>

definition parseMemory :: "string \<Rightarrow> 64 word \<times> NumError option" where
  "parseMemory val =
     (let r = ParseInt (TrimSpace (ReplaceAll val ''MiB'' ''''));
          num = fst r;
          err = snd r
      in
      if err \<noteq> None then (0, err)
      else (num * 1024 * 1024, None))"

section \<open>The data model and the Snapshot Collector\<close>

text \<open>
  Go's \<^verbatim>\<open>error\<close> values. \<open>Ext m\<close> is an error handed back by a library the program
  calls (\<^verbatim>\<open>os/exec\<close>, \<^verbatim>\<open>encoding/xml\<close>, \<^verbatim>\<open>encoding/json\<close>, \<^verbatim>\<open>bufio\<close>), named by its
  message; \<open>Msg m\<close> is \<^verbatim>\<open>fmt.Errorf(m)\<close>; \<open>Wrap m e\<close> is \<^verbatim>\<open>fmt.Errorf(m + "%w", e)\<close>.
\<close>

datatype error = Ext string | Msg string | Wrap string error

text \<open>\<^verbatim>\<open>type GPUData struct\<close>: the Canonical Reading. Both numbers are \<^verbatim>\<open>int64\<close>.\<close>

record GPUData =
  ID :: string
  Name :: string
  MemoryUsedBytes :: "64 word"
  GPUUtilPercent :: "64 word"

text \<open>
  The anonymous struct \<^verbatim>\<open>smiLog\<close> that \<^verbatim>\<open>NvidiaSMICollector.Collect\<close> unmarshals the
  XML document into: a list of \<^verbatim>\<open>gpu\<close> elements, each with its \<^verbatim>\<open>id\<close> attribute
  (field \<^verbatim>\<open>ID\<close>, here \<open>gpu_ID\<close>), \<^verbatim>\<open>product_name\<close>, \<^verbatim>\<open>fb_memory_usage/used\<close> and
  \<^verbatim>\<open>utilization/gpu_util\<close>.
\<close>

record fb_memory_usage =
  Used :: string

record utilization =
  GPUUtil :: string

record gpu =
  gpu_ID :: string
  ProductName :: string
  FBMemory :: fb_memory_usage
  Utilization :: utilization

record smiLog =
  GPUs :: "gpu list"

text \<open>
  The loop \<^verbatim>\<open>for _, g := range smiLog.GPUs\<close>: both normalizers are called, their errors
  are dropped (\<^verbatim>\<open>mem, _ := parseMemory(...)\<close>), and one \<^verbatim>\<open>GPUData\<close> is appended to
  \<^verbatim>\<open>results\<close>.
\<close>

fun collect_gpus :: "GPUData list \<Rightarrow> gpu list \<Rightarrow> GPUData list" where
  "collect_gpus results [] = results"
| "collect_gpus results (g # gs) =
     (let mem = fst (parseMemory (Used (FBMemory g)));
          util = fst (parsePercentage (GPUUtil (Utilization g)))
      in
      collect_gpus
        (results @ [\<lparr>ID = gpu_ID g, Name = ProductName g,
                      MemoryUsedBytes = mem, GPUUtilPercent = util\<rparr>])
        gs)"

text \<open>
  \<^verbatim>\<open>NvidiaSMICollector.Collect\<close>. The two things it gets from outside are arguments:
  \<open>output\<close> is what \<^verbatim>\<open>exec.CommandContext(ctx, "nvidia-smi", "-q", "-x").Output()\<close>
  returned (the bytes of standard output, or the error of a command that could not be
  started, exited non-zero or was killed with its context), and \<open>xml_Unmarshal\<close> is
  \<^verbatim>\<open>xml.Unmarshal\<close> into \<^verbatim>\<open>smiLog\<close>.
\<close>

definition NvidiaSMICollector_Collect ::
    "error + string \<Rightarrow> (string \<Rightarrow> error + smiLog) \<Rightarrow> error + GPUData list" where
  "NvidiaSMICollector_Collect output xml_Unmarshal =
     (case output of
        Inl err \<Rightarrow> Inl (Wrap ''exec error: '' err)
      | Inr out \<Rightarrow>
          (case xml_Unmarshal out of
             Inl err \<Rightarrow> Inl (Wrap ''unmarshal error: '' err)
           | Inr smi \<Rightarrow> Inr (collect_gpus [] (GPUs smi))))"

section \<open>\<^verbatim>\<open>float64\<close> and \<^verbatim>\<open>strconv.ParseFloat\<close>\<close>

text \<open>
  A \<^verbatim>\<open>float64\<close> is an IEEE 754 binary64 value: \<open>Finite s m e\<close> is
  \<open>(-1)^s * m * 2^e\<close> (\<open>s\<close> the sign bit), kept in lowest terms (\<open>m\<close> odd and positive, or \<open>m = 0\<close>
  and \<open>e = 0\<close> for the two zeros) so that every value has one representation.
\<close>

datatype float64 = Finite bool int int | Infinity bool | NaN

text \<open>The number of bits of \<open>n\<close>.\<close>

function bitlen :: "int \<Rightarrow> nat" where
  "bitlen n = (if n \<le> 0 then 0 else Suc (bitlen (n div 2)))"
  by pat_completeness auto
termination
  by (relation "measure nat") auto

declare bitlen.simps [simp del]

text \<open>\<open>m * 2^e\<close> in lowest terms.\<close>

function lowest_terms :: "int \<Rightarrow> int \<Rightarrow> int \<times> int" where
  "lowest_terms m e =
     (if m \<le> 0 then (0, 0)
      else if even m then lowest_terms (m div 2) (e + 1)
      else (m, e))"
  by pat_completeness auto
termination
  by (relation "measure (\<lambda>(m, e). nat m)") auto

declare lowest_terms.simps [simp del]

text \<open>
  IEEE 754 rounding to nearest, ties to even, of the exact value \<open>M * 2^E\<close> with sign
  \<open>s\<close>: 53 bits of precision, the least exponent of a unit in the last place is
  \<open>-1074\<close> (subnormal numbers), and a rounded value of \<open>2^1024\<close> or more is an infinity.
  \<open>u\<close> is the exponent of the unit in the last place of the result.
\<close>

definition round64 :: "bool \<Rightarrow> int \<Rightarrow> int \<Rightarrow> float64" where
  "round64 s M E =
     (if M \<le> 0 then Finite s 0 0
      else
        let L = E + int (bitlen M) - 1;
            u = max (L - 52) (- 1074);
            m = (if u \<le> E then M * 2 ^ nat (E - u)
                 else
                   let shift = nat (u - E);
                       q = M div 2 ^ shift;
                       r = M mod 2 ^ shift;
                       half = 2 ^ (shift - 1)
                   in
                   if half < r \<or> (r = half \<and> odd q) then q + 1 else q)
        in
        if 2 ^ 2098 \<le> m * 2 ^ nat (u + 1074) then Infinity s
        else (case lowest_terms m u of (m', e') \<Rightarrow> Finite s m' e'))"

text \<open>
  The \<^verbatim>\<open>float64\<close> product \<^verbatim>\<open>x * y\<close>: the exact product, rounded; an infinity times zero
  and anything times a NaN are NaN.
\<close>

fun fmul :: "float64 \<Rightarrow> float64 \<Rightarrow> float64" where
  "fmul (Finite s1 m1 e1) (Finite s2 m2 e2) = round64 (s1 \<noteq> s2) (m1 * m2) (e1 + e2)"
| "fmul (Finite s1 m1 e1) (Infinity s2) = (if m1 = 0 then NaN else Infinity (s1 \<noteq> s2))"
| "fmul (Infinity s1) (Finite s2 m2 e2) = (if m2 = 0 then NaN else Infinity (s1 \<noteq> s2))"
| "fmul (Infinity s1) (Infinity s2) = Infinity (s1 \<noteq> s2)"
| "fmul NaN y = NaN"
| "fmul x NaN = NaN"

text \<open>An untyped integer constant of the program (\<^verbatim>\<open>1024\<close>, \<^verbatim>\<open>100\<close>) as a \<^verbatim>\<open>float64\<close>.\<close>

definition float64_const :: "int \<Rightarrow> float64" where
  "float64_const n = round64 False n 0"

text \<open>
  The conversion \<^verbatim>\<open>int64(f)\<close>: the fraction is discarded (truncation towards zero).
  Where the truncated value is not an \<^verbatim>\<open>int64\<close> (also for infinities and NaN) the Go
  specification leaves the result to the implementation; \<open>impl\<close> is what the platform
  yields there.
\<close>

definition float64_trunc :: "float64 \<Rightarrow> int option" where
  "float64_trunc f =
     (case f of
        Finite s m e \<Rightarrow>
          let t = (if 0 \<le> e then m * 2 ^ nat e else m div 2 ^ nat (- e))
          in Some (if s then - t else t)
      | Infinity s \<Rightarrow> None
      | NaN \<Rightarrow> None)"

definition int64_of_float64 :: "(float64 \<Rightarrow> 64 word) \<Rightarrow> float64 \<Rightarrow> 64 word" where
  "int64_of_float64 impl f =
     (case float64_trunc f of
        None \<Rightarrow> impl f
      | Some v \<Rightarrow>
          if - 9223372036854775808 \<le> v \<and> v < 9223372036854775808 then of_int v
          else impl f)"

subsection \<open>\<^verbatim>\<open>strconv.ParseFloat(s, 64)\<close>\<close>

text \<open>\<^verbatim>\<open>commonPrefixLenIgnoreCase(s, prefix)\<close>; \<open>prefix\<close> is in lower case.\<close>

fun commonPrefixLenIgnoreCase :: "string \<Rightarrow> string \<Rightarrow> nat" where
  "commonPrefixLenIgnoreCase (c # s) (p # ps) =
     (let c' = (if 65 \<le> byte c \<and> byte c \<le> 90 then byte c + 32 else byte c) in
      if c' \<noteq> byte p then 0 else Suc (commonPrefixLenIgnoreCase s ps))"
| "commonPrefixLenIgnoreCase s ps = 0"

text \<open>
  The \<^verbatim>\<open>case 'i', 'I'\<close> branch of \<^verbatim>\<open>special\<close>, which a sign falls through to:
  \<^verbatim>\<open>inf\<close> or \<^verbatim>\<open>infinity\<close> in any case; \<open>nsign\<close> is the width of the sign.
\<close>

definition special_inf :: "bool \<Rightarrow> nat \<Rightarrow> string \<Rightarrow> (float64 \<times> nat) option" where
  "special_inf neg nsign s =
     (let n0 = commonPrefixLenIgnoreCase s ''infinity'';
          n = (if 3 < n0 \<and> n0 < 8 then 3 else n0)
      in
      if n = 3 \<or> n = 8 then Some (Infinity neg, nsign + n) else None)"

text \<open>\<^verbatim>\<open>special\<close>: the value and the number of bytes read, for a prefix that is an infinity or NaN.\<close>

definition special :: "string \<Rightarrow> (float64 \<times> nat) option" where
  "special s =
     (case s of
        [] \<Rightarrow> None
      | c # rest \<Rightarrow>
          if c = CHR ''+'' \<or> c = CHR ''-'' then special_inf (c = CHR ''-'') 1 rest
          else if c = CHR ''i'' \<or> c = CHR ''I'' then special_inf False 0 s
          else if c = CHR ''n'' \<or> c = CHR ''N'' then
            (if commonPrefixLenIgnoreCase s ''nan'' = 3 then Some (NaN, 3) else None)
          else None)"

text \<open>
  The variables of \<^verbatim>\<open>readFloat\<close>. \<open>mantissa\<close> holds all \<open>nd\<close> digits read (Go keeps
  the first 19, or 16 hexadecimal ones, and a flag for a non-zero rest; the value
  converted is that of all digits).
\<close>

record readFloat_state =
  mantissa :: int
  nd :: nat
  dp :: int
  sawdot :: bool
  sawdigits :: bool
  underscores :: bool

text \<open>
  The digit loop of \<^verbatim>\<open>readFloat\<close>: the state after it and the input left. \<open>hex\<close> says
  that the base is 16.
\<close>

fun readFloat_digits :: "bool \<Rightarrow> readFloat_state \<Rightarrow> string \<Rightarrow> readFloat_state \<times> string" where
  "readFloat_digits hex st [] = (st, [])"
| "readFloat_digits hex st (c # cs) =
     (if c = CHR ''_'' then readFloat_digits hex (st\<lparr>underscores := True\<rparr>) cs
      else if c = CHR ''.'' then
        (if sawdot st then (st, c # cs)
         else readFloat_digits hex (st\<lparr>sawdot := True, dp := int (nd st)\<rparr>) cs)
      else if 48 \<le> byte c \<and> byte c \<le> 57 then
        (if c = CHR ''0'' \<and> nd st = 0 then
           readFloat_digits hex (st\<lparr>sawdigits := True, dp := dp st - 1\<rparr>) cs
         else
           readFloat_digits hex
             (st\<lparr>sawdigits := True, nd := nd st + 1,
                 mantissa := mantissa st * (if hex then 16 else 10) + int (byte c - 48)\<rparr>) cs)
      else if hex \<and> 97 \<le> lower c \<and> lower c \<le> 102 then
        readFloat_digits hex
          (st\<lparr>sawdigits := True, nd := nd st + 1,
              mantissa := mantissa st * 16 + int (lower c - 97 + 10)\<rparr>) cs
      else (st, c # cs))"

text \<open>
  The loop over the digits of the exponent: the exponent read so far (it stops growing
  at 10000), whether an underscore was seen, and the input left.
\<close>

fun readFloat_exp :: "nat \<Rightarrow> bool \<Rightarrow> string \<Rightarrow> nat \<times> bool \<times> string" where
  "readFloat_exp e us [] = (e, us, [])"
| "readFloat_exp e us (c # cs) =
     (if c = CHR ''_'' then readFloat_exp e True cs
      else if 48 \<le> byte c \<and> byte c \<le> 57 then
        readFloat_exp (if e < 10000 then e * 10 + (byte c - 48) else e) us cs
      else (e, us, c # cs))"

text \<open>
  \<^verbatim>\<open>underscoreOK\<close>: underscores stand only between digits, or between a base prefix and
  a digit. \<open>saw\<close> is the last character class seen: \<open>CHR ''^''\<close> the beginning,
  \<open>CHR ''0''\<close> a digit or base prefix, \<open>CHR ''_''\<close> an underscore, \<open>CHR ''!''\<close> anything
  else.
\<close>

fun underscoreOK_loop :: "bool \<Rightarrow> char \<Rightarrow> string \<Rightarrow> bool" where
  "underscoreOK_loop hex saw [] = (saw \<noteq> CHR ''_'')"
| "underscoreOK_loop hex saw (c # cs) =
     (if (48 \<le> byte c \<and> byte c \<le> 57) \<or> (hex \<and> 97 \<le> lower c \<and> lower c \<le> 102) then
        underscoreOK_loop hex (CHR ''0'') cs
      else if c = CHR ''_'' then
        (if saw \<noteq> CHR ''0'' then False else underscoreOK_loop hex (CHR ''_'') cs)
      else if saw = CHR ''_'' then False
      else underscoreOK_loop hex (CHR ''!'') cs)"

definition underscoreOK :: "string \<Rightarrow> bool" where
  "underscoreOK s0 =
     (let s = (if s0 \<noteq> [] \<and> (hd s0 = CHR ''-'' \<or> hd s0 = CHR ''+'') then tl s0 else s0) in
      if 2 \<le> length s \<and> hd s = CHR ''0''
         \<and> (lower (s ! 1) = 98 \<or> lower (s ! 1) = 111 \<or> lower (s ! 1) = 120)
      then underscoreOK_loop (lower (s ! 1) = 120) (CHR ''0'') (drop 2 s)
      else underscoreOK_loop False (CHR ''^'') s)"

text \<open>
  What \<^verbatim>\<open>readFloat\<close> yields when it succeeds: the number read is
  \<open>(-1)^neg * digits * 10^exponent\<close>, or \<open>(-1)^neg * digits * 2^exponent\<close> when \<open>hex\<close>;
  \<open>consumed\<close> is the number of bytes read.
\<close>

record readFloat_result =
  digits :: int
  exponent :: int
  neg :: bool
  hex :: bool
  consumed :: nat

text \<open>\<^verbatim>\<open>readFloat\<close>; \<open>None\<close> is \<^verbatim>\<open>ok == false\<close>.\<close>

definition readFloat :: "string \<Rightarrow> readFloat_result option" where
  "readFloat s =
     (if s = [] then None
      else
        let ng = (hd s = CHR ''-'');
            s1 = (if hd s = CHR ''+'' \<or> hd s = CHR ''-'' then tl s else s);
            hx = (2 < length s1 \<and> hd s1 = CHR ''0'' \<and> lower (s1 ! 1) = 120);
            s2 = (if hx then drop 2 s1 else s1);
            r = readFloat_digits hx
                  \<lparr>mantissa = 0, nd = 0, dp = 0, sawdot = False, sawdigits = False,
                   underscores = False\<rparr> s2;
            st = fst r;
            s3 = snd r
        in
        if \<not> sawdigits st then None
        else
          let dp1 = (if sawdot st then dp st else int (nd st));
              dp2 = (if hx then dp1 * 4 else dp1);
              nd2 = (if hx then int (nd st) * 4 else int (nd st))
          in
          if s3 \<noteq> [] \<and> lower (hd s3) = (if hx then 112 else 101) then
            (let s4 = tl s3 in
             if s4 = [] then None
             else
               let esign = (if hd s4 = CHR ''-'' then - 1 else 1 :: int);
                   s5 = (if hd s4 = CHR ''+'' \<or> hd s4 = CHR ''-'' then tl s4 else s4)
               in
               if s5 = [] \<or> byte (hd s5) < 48 \<or> 57 < byte (hd s5) then None
               else
                 let x = readFloat_exp 0 (underscores st) s5;
                     e = fst x;
                     us = fst (snd x);
                     s6 = snd (snd x);
                     n = length s - length s6
                 in
                 if us \<and> \<not> underscoreOK (take n s) then None
                 else
                   Some \<lparr>digits = mantissa st,
                         exponent = (if mantissa st \<noteq> 0 then dp2 + int e * esign - nd2 else 0),
                         neg = ng, hex = hx, consumed = n\<rparr>)
          else if hx then None
          else
            let n = length s - length s3 in
            if underscores st \<and> \<not> underscoreOK (take n s) then None
            else
              Some \<lparr>digits = mantissa st,
                    exponent = (if mantissa st \<noteq> 0 then dp2 - nd2 else 0),
                    neg = ng, hex = hx, consumed = n\<rparr>)"

text \<open>
  The \<^verbatim>\<open>float64\<close> nearest to \<open>(-1)^s * d * 10^k\<close>, ties to even. For \<open>k < 0\<close> the
  quotient \<open>d / 10^(-k)\<close> is computed to more than 64 bits, with one more bit that says
  whether the division left a remainder.
\<close>

definition decimal_to_float64 :: "bool \<Rightarrow> int \<Rightarrow> int \<Rightarrow> float64" where
  "decimal_to_float64 s d k =
     (if 0 \<le> k then round64 s (d * 10 ^ nat k) 0
      else
        let den = 10 ^ nat (- k);
            t = 64 + bitlen den;
            q = (d * 2 ^ t) div den;
            r = (d * 2 ^ t) mod den
        in
        round64 s (2 * q + (if r = 0 then 0 else 1)) (- int t - 1))"

text \<open>
  \<^verbatim>\<open>strconv.ParseFloat(s, 64)\<close>: the value and the error. A string that is not a
  floating-point number gives \<open>(0, ErrSyntax)\<close>; a number too large gives the infinity
  of its sign with \<open>ErrRange\<close>; otherwise the result is the nearest \<^verbatim>\<open>float64\<close>.
\<close>

definition ParseFloat :: "string \<Rightarrow> float64 \<times> NumError option" where
  "ParseFloat s =
     (case special s of
        Some (f, n) \<Rightarrow> if n \<noteq> length s then (Finite False 0 0, Some ErrSyntax) else (f, None)
      | None \<Rightarrow>
          (case readFloat s of
             None \<Rightarrow> (Finite False 0 0, Some ErrSyntax)
           | Some r \<Rightarrow>
               if consumed r \<noteq> length s then (Finite False 0 0, Some ErrSyntax)
               else
                 let f = (if hex r then round64 (neg r) (digits r) (exponent r)
                          else decimal_to_float64 (neg r) (digits r) (exponent r))
                 in
                 (case f of
                    Infinity sg \<Rightarrow> (f, Some ErrRange)
                  | _ \<Rightarrow> (f, None))))"

section \<open>The Stream-Tail Collector\<close>

subsection \<open>The regular expression\<close>

text \<open>
  \<^verbatim>\<open>dataRegex = regexp.MustCompile(`data\s*=\s*(\{.*)$`)\<close>. In Go's syntax \<^verbatim>\<open>\s\<close> is
  \<^verbatim>\<open>[\t\n\f\r ]\<close>, \<^verbatim>\<open>.\<close> is any character but a newline, and \<^verbatim>\<open>$\<close> is the end of
  the text. \<open>regex_space\<close> is the class \<^verbatim>\<open>\s\<close>.
\<close>

definition regex_space :: "char \<Rightarrow> bool" where
  "regex_space c = (byte c = 9 \<or> byte c = 10 \<or> byte c = 12 \<or> byte c = 13 \<or> byte c = 32)"

text \<open>
  A match that starts at the first byte of \<open>s\<close>: the whole match and the group. After
  \<^verbatim>\<open>data\<close> each \<^verbatim>\<open>\s*\<close> takes all the white space there is (what follows it is not
  white space), and \<^verbatim>\<open>.*$\<close> must reach the end of the text, so there is at most one
  match at a position.
\<close>

definition match_here :: "string \<Rightarrow> string list" where
  "match_here s =
     (if prefix ''data'' s then
        (case dropWhile regex_space (drop 4 s) of
           [] \<Rightarrow> []
         | c # r \<Rightarrow>
             if c \<noteq> CHR ''='' then []
             else
               (case dropWhile regex_space r of
                  [] \<Rightarrow> []
                | b # t \<Rightarrow>
                    if b = CHR ''{'' \<and> CHR 0x0A \<notin> set t then [s, b # t] else []))
      else [])"

text \<open>
  \<^verbatim>\<open>dataRegex.FindStringSubmatch(line)\<close>: the leftmost match, as the list of the whole
  match and the group; the empty list (\<^verbatim>\<open>nil\<close>) when there is none.
\<close>

fun FindStringSubmatch :: "string \<Rightarrow> string list" where
  "FindStringSubmatch [] = match_here []"
| "FindStringSubmatch (c # cs) =
     (case match_here (c # cs) of
        [] \<Rightarrow> FindStringSubmatch cs
      | m # ms \<Rightarrow> m # ms)"

declare FindStringSubmatch.simps [simp del]

subsection \<open>The scanner and the collector's state\<close>

text \<open>
  What a call of \<^verbatim>\<open>c.scanner.Scan()\<close> finds: a line (\<^verbatim>\<open>Scan\<close> returns true and
  \<^verbatim>\<open>Text()\<close> is the line), the end of the stream (\<^verbatim>\<open>Scan\<close> returns false and \<^verbatim>\<open>Err()\<close>
  is \<^verbatim>\<open>nil\<close>), or an error (\<^verbatim>\<open>Scan\<close> returns false and \<^verbatim>\<open>Err()\<close> is the error: a read
  error of the pipe, or \<^verbatim>\<open>bufio.ErrTooLong\<close> for a line beyond 64 KiB). The stream is the
  function from positions to what \<^verbatim>\<open>Scan\<close> finds there: the subprocess and the scanner
  decide it, the collector only reads it. A stream need not end.
\<close>

datatype scan = Line string | EOF | ScanErr error

text \<open>
  The state a \<^verbatim>\<open>Collect\<close> call changes: the scanner's position in the stream (the line
  cursor), and what \<^verbatim>\<open>fmt.Println\<close> has written to standard output, line by line.
  A line takes one position, and so does an error: a \<^verbatim>\<open>bufio.Scanner\<close> that has failed
  is not stuck, its next \<^verbatim>\<open>Scan\<close> hands out what it had buffered as a line (after
  \<^verbatim>\<open>ErrTooLong\<close>, the 64 KiB read so far) before it fails again, so what follows an
  error is the next position of the stream. At the end of the stream the scanner stays
  where it is: every later \<^verbatim>\<open>Scan\<close> returns false with no error.
\<close>

record collector =
  cursor :: nat
  console :: "string list"

text \<open>
  \<^verbatim>\<open>DynologCollector.Start\<close>: \<open>pipe_err\<close> and \<open>start_err\<close> are the errors of
  \<^verbatim>\<open>c.cmd.StderrPipe()\<close> and \<^verbatim>\<open>c.cmd.Start()\<close>, if any. A started collector reads the
  stream from its beginning.
\<close>

definition DynologCollector_Start :: "error option \<Rightarrow> error option \<Rightarrow> string list \<Rightarrow> error + collector" where
  "DynologCollector_Start pipe_err start_err out =
     (case pipe_err of
        Some err \<Rightarrow> Inl err
      | None \<Rightarrow>
          (case start_err of
             Some err \<Rightarrow> Inl err
           | None \<Rightarrow> Inr \<lparr>cursor = 0, console = out\<rparr>))"

subsection \<open>The collector that returns the typed record\<close>

text \<open>
  \<^verbatim>\<open>type DynologData struct\<close>: the record \<^verbatim>\<open>json.Unmarshal\<close> fills from the JSON
  payload.
\<close>

record DynologData =
  DCGMError :: "64 word"
  Device :: "64 word"
  FP16Active :: float64
  FP32Active :: float64
  FP64Active :: float64
  GPUFreqMHz :: float64
  GPUMemoryUtil :: float64
  GPUPowerDraw :: float64
  GraphicsActiveRatio :: float64
  HbmMemBWUtil :: float64
  NvlinkRxBytes :: "64 word"
  NvlinkTxBytes :: "64 word"
  PcieRxBytes :: "64 word"
  PcieTxBytes :: "64 word"
  SmActiveRatio :: float64
  SmOccupancy :: float64
  TensorcoreActive :: float64

text \<open>
  \<^verbatim>\<open>func (c *DynologCollector) Collect(ctx) (DynologData, error)\<close>, the collector of the
  first program in \<^verbatim>\<open>main.go\<close>. \<open>src\<close> is the stream and \<open>json_Unmarshal\<close> is
  \<^verbatim>\<open>json.Unmarshal\<close> into a \<^verbatim>\<open>DynologData\<close>. The result is \<open>None\<close> when the call does
  not return: the loop reads on for as long as the stream has lines and none matches.
  An error return carries the zero \<^verbatim>\<open>DynologData{}\<close>.
\<close>

partial_function (option) DynologCollector_Collect ::
    "(nat \<Rightarrow> scan) \<Rightarrow> (string \<Rightarrow> error + DynologData) \<Rightarrow> collector
       \<Rightarrow> ((error + DynologData) \<times> collector) option" where
  "DynologCollector_Collect src json_Unmarshal c =
     (case src (cursor c) of
        Line line \<Rightarrow>
          let c' = c\<lparr>cursor := cursor c + 1, console := console c @ [line]\<rparr>;
              m = FindStringSubmatch line
          in
          if 2 \<le> length m then
            (case json_Unmarshal (m ! 1) of
               Inl err \<Rightarrow> Some (Inl err, c')
             | Inr raw \<Rightarrow> Some (Inr raw, c'))
          else DynologCollector_Collect src json_Unmarshal c'
      | ScanErr err \<Rightarrow> Some (Inl err, c\<lparr>cursor := cursor c + 1\<rparr>)
      | EOF \<Rightarrow> Some (Inl (Msg ''no dynolog JSON lines found yet''), c))"

subsection \<open>The collector that returns Canonical Readings\<close>

text \<open>
  The values \<^verbatim>\<open>json.Unmarshal\<close> stores in an \<^verbatim>\<open>interface{}\<close>: \<^verbatim>\<open>nil\<close> for JSON null,
  \<^verbatim>\<open>bool\<close>, \<^verbatim>\<open>float64\<close> for every number, \<^verbatim>\<open>string\<close>, \<^verbatim>\<open>[]interface{}\<close> and
  \<^verbatim>\<open>map[string]interface{}\<close>. A map is the list of its entries in increasing key order,
  the order \<^verbatim>\<open>fmt\<close> prints them in.
\<close>

datatype json =
    JNil
  | JBool bool
  | JNumber float64
  | JString string
  | JArray "json list"
  | JObject "(string \<times> json) list"

text \<open>\<^verbatim>\<open>j[key]\<close> on a \<^verbatim>\<open>map[string]interface{}\<close>: \<^verbatim>\<open>nil\<close> when the key is absent.\<close>

definition index_map :: "(string \<times> json) list \<Rightarrow> string \<Rightarrow> json" where
  "index_map j key = (case map_of j key of None \<Rightarrow> JNil | Some v \<Rightarrow> v)"

text \<open>The operands of \<^verbatim>\<open>%v\<close> inside a slice or map, separated by one space.\<close>

fun join_space :: "string list \<Rightarrow> string" where
  "join_space [] = []"
| "join_space [x] = x"
| "join_space (x # y # ys) = x @ '' '' @ join_space (y # ys)"

text \<open>
  \<^verbatim>\<open>fmt.Sprintf("%v", val)\<close>. \<open>FormatFloat\<close> is how \<^verbatim>\<open>fmt\<close> prints a \<^verbatim>\<open>float64\<close> under
  \<^verbatim>\<open>%v\<close> (\<^verbatim>\<open>strconv.FormatFloat(f, 'g', -1, 64)\<close>, the shortest decimal that reads back as
  \<open>f\<close>).
\<close>

fun Sprintf_v :: "(float64 \<Rightarrow> string) \<Rightarrow> json \<Rightarrow> string" where
  "Sprintf_v FormatFloat JNil = ''<nil>''"
| "Sprintf_v FormatFloat (JBool b) = (if b then ''true'' else ''false'')"
| "Sprintf_v FormatFloat (JNumber f) = FormatFloat f"
| "Sprintf_v FormatFloat (JString s) = s"
| "Sprintf_v FormatFloat (JArray xs) =
     ''['' @ join_space (map (Sprintf_v FormatFloat) xs) @ '']''"
| "Sprintf_v FormatFloat (JObject kvs) =
     ''map['' @ join_space (map (\<lambda>kv. fst kv @ '':'' @ Sprintf_v FormatFloat (snd kv)) kvs) @ '']''"

text \<open>
  The parts of the Go runtime and library that the second collector takes as given:
  \<^verbatim>\<open>json.Unmarshal\<close> into a \<^verbatim>\<open>map[string]interface{}\<close>, the printing of a \<^verbatim>\<open>float64\<close>
  under \<^verbatim>\<open>%v\<close>, and what \<^verbatim>\<open>int64(f)\<close> yields on this platform when \<open>f\<close> is out of range.
\<close>

record runtime =
  json_Unmarshal_map :: "string \<Rightarrow> error + (string \<times> json) list"
  FormatFloat_g :: "float64 \<Rightarrow> string"
  int64_out_of_range :: "float64 \<Rightarrow> 64 word"

text \<open>\<^verbatim>\<open>parseOptionalFloat\<close>: the error of \<^verbatim>\<open>strconv.ParseFloat\<close> is dropped.\<close>

definition parseOptionalFloat :: "runtime \<Rightarrow> json \<Rightarrow> float64" where
  "parseOptionalFloat rt val = fst (ParseFloat (Sprintf_v (FormatFloat_g rt) val))"

text \<open>
  The body of the loop of the second \<^verbatim>\<open>Collect\<close> once a line has matched: from
  \<^verbatim>\<open>rawJSON := matches[1]\<close> to the \<^verbatim>\<open>return\<close>.
\<close>

definition reading_of_json :: "runtime \<Rightarrow> string \<Rightarrow> error + GPUData list" where
  "reading_of_json rt rawJSON =
     (case json_Unmarshal_map rt rawJSON of
        Inl err \<Rightarrow> Inl (Wrap ''json parse error: '' err)
      | Inr j \<Rightarrow>
          let id = Sprintf_v (FormatFloat_g rt) (index_map j ''device'');
              memUtil = parseOptionalFloat rt (index_map j ''gpu_memory_utilization'');
              memUsed = int64_of_float64 (int64_out_of_range rt)
                          (fmul (fmul memUtil (float64_const 1024)) (float64_const 1024));
              util = parseOptionalFloat rt (index_map j ''sm_active_ratio'')
          in
          Inr [\<lparr>ID = id, Name = ''DCGM-GPU'', MemoryUsedBytes = memUsed,
                GPUUtilPercent =
                  int64_of_float64 (int64_out_of_range rt) (fmul util (float64_const 100))\<rparr>])"

text \<open>
  \<^verbatim>\<open>func (c *DynologCollector) Collect(ctx) ([]GPUData, error)\<close>, the collector of the
  second program in \<^verbatim>\<open>main.go\<close>. An error return carries the \<^verbatim>\<open>nil\<close> slice.
\<close>

partial_function (option) DynologCollector_Collect_GPUData ::
    "(nat \<Rightarrow> scan) \<Rightarrow> runtime \<Rightarrow> collector \<Rightarrow> ((error + GPUData list) \<times> collector) option" where
  "DynologCollector_Collect_GPUData src rt c =
     (case src (cursor c) of
        Line line \<Rightarrow>
          let c' = c\<lparr>cursor := cursor c + 1, console := console c @ [line]\<rparr>;
              matches = FindStringSubmatch line
          in
          if length matches < 2 then DynologCollector_Collect_GPUData src rt c'
          else Some (reading_of_json rt (matches ! 1), c')
      | ScanErr err \<Rightarrow>
          Some (Inl (Wrap ''reading dynolog stderr: '' err), c\<lparr>cursor := cursor c + 1\<rparr>)
      | EOF \<Rightarrow> Some (Inl (Msg ''no dynolog JSON lines found yet''), c))"

section \<open>Vocabulary of the claims\<close>

text \<open>
  A decimal digit, and the number a string of decimal digits denotes (\<open>dec_value 0 ds\<close>;
  the first argument is the value of the digits already read).
\<close>

definition is_digit :: "char \<Rightarrow> bool" where
  "is_digit c = (48 \<le> byte c \<and> byte c \<le> 57)"

definition dec_value :: "nat \<Rightarrow> string \<Rightarrow> nat" where
  "dec_value a ds = foldl (\<lambda>a c. a * 10 + (byte c - 48)) a ds"

text \<open>
  The strings \<^verbatim>\<open>strconv.ParseInt(s, 10, 64)\<close> reads as a number: an optional sign and at
  least one decimal digit, nothing else.
\<close>

definition int_syntax :: "string \<Rightarrow> bool" where
  "int_syntax s =
     (let t = (if s \<noteq> [] \<and> (hd s = CHR ''+'' \<or> hd s = CHR ''-'') then tl s else s)
      in t \<noteq> [] \<and> list_all is_digit t)"

text \<open>
  The two spellings of the specification, \<open>"<n> MiB"\<close> and \<open>"<n>%"\<close>: a non-empty string of
  decimal digits followed by the unit (\<open>'' MiB''\<close>, \<open>''%''\<close>). And a character that
  belongs to no number, no white space and not to the unit: an ASCII character that is
  no digit, no sign, no white space and none of the characters of \<open>unit\<close>.
\<close>

definition well_formed :: "string \<Rightarrow> string \<Rightarrow> bool" where
  "well_formed unit s =
     (let ds = take (length s - length unit) s in
      s = ds @ unit \<and> ds \<noteq> [] \<and> list_all is_digit ds)"

definition foreign :: "string \<Rightarrow> char \<Rightarrow> bool" where
  "foreign unit c =
     (byte c < 128 \<and> \<not> asciiSpace c \<and> \<not> is_digit c \<and> c \<noteq> CHR ''+'' \<and> c \<noteq> CHR ''-''
      \<and> c \<notin> set unit)"

text \<open>
  The line a position of the stream holds, as a list: none at the end of the stream and
  at an error. \<open>skipped src a b\<close>: every position from \<open>a\<close> up to \<open>b\<close> (\<open>b\<close> excluded)
  holds a line that does not match the pattern.
\<close>

definition lines_at :: "(nat \<Rightarrow> scan) \<Rightarrow> nat \<Rightarrow> string list" where
  "lines_at src i = (case src i of Line l \<Rightarrow> [l] | EOF \<Rightarrow> [] | ScanErr err \<Rightarrow> [])"

definition skipped :: "(nat \<Rightarrow> scan) \<Rightarrow> nat \<Rightarrow> nat \<Rightarrow> bool" where
  "skipped src a b =
     list_all
       (\<lambda>i. case src i of
              Line l \<Rightarrow> length (FindStringSubmatch l) < 2
            | EOF \<Rightarrow> False
            | ScanErr err \<Rightarrow> False)
       [a ..< b]"

text \<open>
  What one call of a collector did, \<open>c\<close> being the state before it and \<open>y\<close> the result
  with the state after it; \<open>a\<close> and \<open>b\<close> are the cursor before and after. The lines of
  the positions from \<open>a\<close> up to \<open>b\<close> were echoed to the console, in order. Either the
  call consumed the positions from \<open>a\<close> up to \<open>b\<close>, of which the last one, \<open>b - 1\<close>, is
  the first that is not a non-matching line, and the result comes from that position:
  \<open>of_payload\<close> of the matched group, or \<open>of_error\<close> of the scanner's error. Or all the
  positions from \<open>a\<close> up to \<open>b\<close> are non-matching lines, the stream ends at \<open>b\<close>, and the
  result is \<open>ended\<close>.
\<close>

definition call_outcome ::
    "(string \<Rightarrow> 'r) \<Rightarrow> (error \<Rightarrow> 'r) \<Rightarrow> 'r \<Rightarrow> (nat \<Rightarrow> scan) \<Rightarrow> collector
       \<Rightarrow> 'r \<times> collector \<Rightarrow> bool" where
  "call_outcome of_payload of_error ended src c y =
     (let a = cursor c; b = cursor (snd y) in
      console (snd y) = console c @ concat (map (lines_at src) [a ..< b]) \<and>
      (a < b \<and> skipped src a (b - 1) \<and>
         (case src (b - 1) of
            Line l \<Rightarrow>
              2 \<le> length (FindStringSubmatch l) \<and> fst y = of_payload (FindStringSubmatch l ! 1)
          | EOF \<Rightarrow> False
          | ScanErr err \<Rightarrow> fst y = of_error err)
       \<or> a \<le> b \<and> skipped src a b \<and> src b = EOF \<and> fst y = ended))"

text \<open>
  A returned call \<open>run src c = Some y\<close> of a collector with its footprint: what it did
  (\<open>call_outcome\<close>), and that it read no position before the old cursor and none after
  the new one: on every stream that agrees with \<open>src\<close> from the old cursor up to the new
  one, it returns the same.
\<close>

definition trace_ok ::
    "((nat \<Rightarrow> scan) \<Rightarrow> collector \<Rightarrow> ('r \<times> collector) option)
       \<Rightarrow> (string \<Rightarrow> 'r) \<Rightarrow> (error \<Rightarrow> 'r) \<Rightarrow> 'r
       \<Rightarrow> (nat \<Rightarrow> scan) \<Rightarrow> collector \<Rightarrow> 'r \<times> collector \<Rightarrow> bool" where
  "trace_ok run of_payload of_error ended src c y =
     (call_outcome of_payload of_error ended src c y \<and>
      (\<forall>src'. (\<forall>i. cursor c \<le> i \<and> i \<le> cursor (snd y) \<longrightarrow> src' i = src i) \<longrightarrow>
         run src' c = Some y))"

text \<open>
  An example stream: one line of noise, then the line
  \<^verbatim>\<open>data = {"device":0,"sm_active_ratio":"0.5"}\<close>, then a second data line, then the
  end of the stream. \<open>noise_stream\<close> ends after its line of noise.
\<close>

definition example_stream :: "nat \<Rightarrow> scan" where
  "example_stream i =
     (if i = 0 then Line ''noise...''
      else if i = 1 then Line ''data = {\"device\":0,\"sm_active_ratio\":\"0.5\"}''
      else if i = 2 then Line ''data = {}''
      else EOF)"



text \<open>
  A runtime for the examples. \<^verbatim>\<open>json.Unmarshal\<close> of the payloads of \<open>example_stream\<close> and
  \<open>ratio_stream\<close> (any other text is rejected): a JSON number becomes the nearest
  \<^verbatim>\<open>float64\<close>, a JSON string stays a string. \<^verbatim>\<open>%v\<close> of the \<^verbatim>\<open>float64\<close> values in those
  payloads, as Go prints them: \<^verbatim>\<open>0\<close>, \<^verbatim>\<open>3\<close> and \<^verbatim>\<open>0.5\<close> (\<^verbatim>\<open>?\<close> stands for the print
  of any other value; no example prints one). And a platform whose out-of-range
  conversions yield the least \<^verbatim>\<open>int64\<close>, as amd64 does.
\<close>

definition example_runtime :: runtime where
  "example_runtime =
     \<lparr>json_Unmarshal_map =
        (\<lambda>s. if s = ''{\"device\":0,\"sm_active_ratio\":\"0.5\"}'' then
                Inr [(''device'', JNumber (Finite False 0 0)), (''sm_active_ratio'', JString ''0.5'')]
              else if s = ''{}'' then Inr []
              else if s = ''{\"device\":3,\"gpu_memory_utilization\":0.5,\"sm_active_ratio\":\"0.25\"}'' then
                Inr [(''device'', JNumber (Finite False 3 0)),
                     (''gpu_memory_utilization'', JNumber (Finite False 1 (- 1))),
                     (''sm_active_ratio'', JString ''0.25'')]
              else if s = ''{\"device\":0,\"sm_active_ratio\":\"0.29\"}'' then
                Inr [(''device'', JNumber (Finite False 0 0)), (''sm_active_ratio'', JString ''0.29'')]
              else if s = ''{\"device\":0,\"sm_active_ratio\":\"0.3499999999999999999\"}'' then
                Inr [(''device'', JNumber (Finite False 0 0)),
                     (''sm_active_ratio'', JString ''0.3499999999999999999'')]
              else if s = ''{\"device\":0,\"gpu_memory_utilization\":\"1e300\"}'' then
                Inr [(''device'', JNumber (Finite False 0 0)),
                     (''gpu_memory_utilization'', JString ''1e300'')]
              else Inl (Ext ''invalid character'')),
      FormatFloat_g =
        (\<lambda>f. if f = Finite False 0 0 then ''0''
             else if f = Finite False 3 0 then ''3''
             else if f = Finite False 1 (- 1) then ''0.5''
             else ''?''),
      int64_out_of_range = (\<lambda>f. - 9223372036854775808)\<rparr>"

text \<open>
  \<^verbatim>\<open>json.Unmarshal\<close> into a \<^verbatim>\<open>DynologData\<close>, for the two payloads of \<open>example_stream\<close>:
  the fields a payload leaves out keep the zero value, so \<^verbatim>\<open>{}\<close> gives the zero
  \<^verbatim>\<open>DynologData{}\<close>.
\<close>

definition example_Unmarshal :: "string \<Rightarrow> error + DynologData" where
  "example_Unmarshal s =
     (if s = ''{\"device\":0,\"sm_active_ratio\":\"0.5\"}'' then
        Inr \<lparr>DCGMError = 0, Device = 0,
             FP16Active = Finite False 0 0, FP32Active = Finite False 0 0,
             FP64Active = Finite False 0 0, GPUFreqMHz = Finite False 0 0,
             GPUMemoryUtil = Finite False 0 0, GPUPowerDraw = Finite False 0 0,
             GraphicsActiveRatio = Finite False 0 0, HbmMemBWUtil = Finite False 0 0,
             NvlinkRxBytes = 0, NvlinkTxBytes = 0, PcieRxBytes = 0, PcieTxBytes = 0,
             SmActiveRatio = Finite False 1 (- 1), SmOccupancy = Finite False 0 0,
             TensorcoreActive = Finite False 0 0\<rparr>
      else if s = ''{}'' then
        Inr \<lparr>DCGMError = 0, Device = 0,
             FP16Active = Finite False 0 0, FP32Active = Finite False 0 0,
             FP64Active = Finite False 0 0, GPUFreqMHz = Finite False 0 0,
             GPUMemoryUtil = Finite False 0 0, GPUPowerDraw = Finite False 0 0,
             GraphicsActiveRatio = Finite False 0 0, HbmMemBWUtil = Finite False 0 0,
             NvlinkRxBytes = 0, NvlinkTxBytes = 0, PcieRxBytes = 0, PcieTxBytes = 0,
             SmActiveRatio = Finite False 0 0, SmOccupancy = Finite False 0 0,
             TensorcoreActive = Finite False 0 0\<rparr>
      else Inl (Ext ''invalid character''))"

text \<open>
  A value that is no number: anything but a \<^verbatim>\<open>float64\<close> and a string that
  \<^verbatim>\<open>strconv.ParseFloat\<close> reads as one. An absent field is \<open>JNil\<close>.
\<close>

definition non_numeric :: "json \<Rightarrow> bool" where
  "non_numeric v =
     (case v of
        JNumber f \<Rightarrow> False
      | JString s \<Rightarrow> snd (ParseFloat s) = Some ErrSyntax
      | _ \<Rightarrow> True)"

text \<open>
  Two variants of \<open>example_stream\<close>. \<open>altered_stream\<close> has other lines at the positions
  0 and 1 and is the same from position 2 on. \<open>cut_stream\<close> is the same up to position 2
  and fails with a read error from position 3 on.
\<close>

definition altered_stream :: "nat \<Rightarrow> scan" where
  "altered_stream i = (if i < 2 then Line ''data = {}'' else example_stream i)"

definition cut_stream :: "nat \<Rightarrow> scan" where
  "cut_stream i = (if i < 3 then example_stream i else ScanErr (Ext ''read |0: file already closed''))"

text \<open>
  A stream in which a line is too long for the scanner: \<^verbatim>\<open>Scan\<close> fails with
  \<^verbatim>\<open>bufio.ErrTooLong\<close>, the next \<^verbatim>\<open>Scan\<close> hands out what was buffered as a line, and every
  later one fails again.
\<close>

definition long_line_stream :: "nat \<Rightarrow> scan" where
  "long_line_stream i =
     (if i = 1 then Line ''data = {}'' else ScanErr (Ext ''bufio.Scanner: token too long''))"




text \<open>
  The real number that a finite \<^verbatim>\<open>float64\<close> stands for; infinities and NaN stand for
  none, and \<open>valof\<close> is 0 there. \<open>finite64\<close> tells the finite values apart.
\<close>

definition valof :: "float64 \<Rightarrow> real" where
  "valof f =
     (case f of
        Finite s m e \<Rightarrow> (if s then - 1 else 1) * real_of_int m * 2 powi e
      | Infinity s \<Rightarrow> 0
      | NaN \<Rightarrow> 0)"






section \<open>Lemmas about the library functions\<close>

lemma dec_value_Nil [simp]: "dec_value a [] = a"
  by (simp add: dec_value_def)

lemma dec_value_Cons [simp]: "dec_value a (c # cs) = dec_value (a * 10 + (byte c - 48)) cs"
  by (simp add: dec_value_def)

lemma dec_value_ge: "a \<le> dec_value a ds"
proof (induction ds arbitrary: a)
  case Nil
  then show ?case by simp
next
  case (Cons c cs)
  have "a \<le> a * 10 + (byte c - 48)" by simp
  also have "\<dots> \<le> dec_value (a * 10 + (byte c - 48)) cs" by (rule Cons.IH)
  finally show ?case by simp
qed

lemma digit_value_digit: "is_digit c \<Longrightarrow> digit_value c = Some (byte c - 48)"
  by (simp add: digit_value_def is_digit_def)

lemma ParseUint_step:
  fixes n :: "64 word"
  assumes d: "d < 10" and b: "unat n * 10 + d < 2 ^ 64"
  shows "\<not> 1844674407370955162 \<le> n"
    and "unat (n * 10 + of_nat d) = unat n * 10 + d"
    and "\<not> n * 10 + of_nat d < n * 10"
proof -
  have n: "unat n < 1844674407370955162" using b by simp
  then show "\<not> 1844674407370955162 \<le> n" by (simp add: word_le_nat_alt)
  have m: "unat (n * 10) = unat n * 10"
    using n by (simp add: unat_word_ariths)
  have dd: "unat (of_nat d :: 64 word) = d"
    using d by (simp add: unat_of_nat)
  show s: "unat (n * 10 + of_nat d) = unat n * 10 + d"
    using b m dd by (simp add: unat_word_ariths)
  show "\<not> n * 10 + of_nat d < n * 10"
    using s m by (simp add: word_less_nat_alt)
qed

lemma ParseUint_loop_digits:
  "list_all is_digit ds \<Longrightarrow> dec_value (unat n) ds < 2 ^ 64 \<Longrightarrow>
     ParseUint_loop n ds = (of_nat (dec_value (unat n) ds), None)"
proof (induction ds arbitrary: n)
  case Nil
  then show ?case by simp
next
  case (Cons c cs)
  define d where "d = byte c - 48"
  have dig: "is_digit c" and rest: "list_all is_digit cs" using Cons.prems(1) by simp_all
  have d10: "d < 10" using dig by (auto simp: d_def is_digit_def)
  have "unat n * 10 + d \<le> dec_value (unat n * 10 + d) cs" by (rule dec_value_ge)
  also have "\<dots> < 2 ^ 64" using Cons.prems(2) by (simp add: d_def)
  finally have b: "unat n * 10 + d < 2 ^ 64" .
  note st = ParseUint_step [OF d10 b]
  have le: "\<not> 18446744073709551615 < n * 10 + of_nat d"
    using b by (simp add: word_less_nat_alt st(2))
  have v: "dec_value (unat n) (c # cs) = dec_value (unat (n * 10 + of_nat d)) cs"
    by (simp add: st(2)) (simp add: d_def)
  have "ParseUint_loop n (c # cs) = ParseUint_loop (n * 10 + of_nat d) cs"
    using digit_value_digit [OF dig] d10 st(1) st(3) le
    by (simp add: d_def Let_def)
  also have "\<dots> = (of_nat (dec_value (unat (n * 10 + of_nat d)) cs), None)"
    using Cons.prems(2) rest unfolding v by (rule Cons.IH [rotated])
  finally show ?case unfolding v .
qed

lemma is_digit_ascii: "is_digit c \<Longrightarrow> byte c < 128 \<and> \<not> asciiSpace c"
  by (auto simp: is_digit_def asciiSpace_def)

lemma byte_literals:
  "byte (CHR ''M'') = 77" "byte (CHR ''%'') = 37" "byte (CHR ''+'') = 43"
  "byte (CHR ''-'') = 45" "byte (CHR '' '') = 32"
  by (simp_all add: byte_def)

lemma is_digit_not_literal:
  assumes "is_digit c"
  shows "c \<noteq> CHR ''M''" "c \<noteq> CHR ''%''" "c \<noteq> CHR ''+''" "c \<noteq> CHR ''-''" "c \<noteq> CHR '' ''"
  using assms byte_literals by (auto simp: is_digit_def)

lemma TrimSpace_start_keep:
  "s \<noteq> [] \<Longrightarrow> byte (hd s) < 128 \<Longrightarrow> \<not> asciiSpace (hd s) \<Longrightarrow> TrimSpace_start s = Inr s"
  by (cases s) auto

lemma TrimSpace_stop_keep:
  "s \<noteq> [] \<Longrightarrow> byte (last s) < 128 \<Longrightarrow> \<not> asciiSpace (last s) \<Longrightarrow> TrimSpace_stop s = s"
  by (subst TrimSpace_stop.simps) (simp add: Let_def)

lemma TrimSpace_stop_space:
  "TrimSpace_stop (s @ '' '') = TrimSpace_stop s"
  by (subst TrimSpace_stop.simps) (simp add: Let_def byte_literals asciiSpace_def)

lemma TrimSpace_keep:
  assumes "s \<noteq> []" "byte (hd s) < 128" "\<not> asciiSpace (hd s)"
    "byte (last s) < 128" "\<not> asciiSpace (last s)"
  shows "TrimSpace s = s"
  using assms by (simp add: TrimSpace_def TrimSpace_start_keep TrimSpace_stop_keep)

lemma TrimSpace_trailing_space:
  assumes "s \<noteq> []" "byte (hd s) < 128" "\<not> asciiSpace (hd s)"
    "byte (last s) < 128" "\<not> asciiSpace (last s)"
  shows "TrimSpace (s @ '' '') = s"
proof -
  have "TrimSpace_start (s @ '' '') = Inr (s @ '' '')"
    using assms by (intro TrimSpace_start_keep) simp_all
  then show ?thesis
    using assms by (simp add: TrimSpace_def TrimSpace_stop_space TrimSpace_stop_keep)
qed

lemma replace_scan_Nil: "replace_scan [] old new = []"
  by (subst replace_scan.simps) simp

lemma replace_scan_self: "old \<noteq> [] \<Longrightarrow> replace_scan old old new = new"
  by (subst replace_scan.simps) (simp add: replace_scan_Nil)

lemma replace_scan_skip:
  "old \<noteq> [] \<Longrightarrow> hd old \<notin> set s \<Longrightarrow> replace_scan (s @ t) old new = s @ replace_scan t old new"
proof (induction s)
  case Nil
  then show ?case by simp
next
  case (Cons c s)
  have np: "\<not> prefix old ((c # s) @ t)"
    using Cons.prems by (cases old) auto
  have "replace_scan ((c # s) @ t) old new = c # replace_scan (s @ t) old new"
    using Cons.prems(1) np by (subst replace_scan.simps) simp
  then show ?case using Cons by simp
qed

lemma digits_hd_last:
  assumes "ds \<noteq> []" "list_all is_digit ds"
  shows "is_digit (hd ds)" "is_digit (last ds)"
  using assms by (auto simp: list_all_iff)

lemma clean_percent:
  assumes "ds \<noteq> []" "list_all is_digit ds"
  shows "TrimSpace (ReplaceAll (ds @ ''%'') ''%'' '''') = ds"
proof -
  have "CHR ''%'' \<notin> set ds"
    using assms(2) is_digit_not_literal(2) by (auto simp: list_all_iff)
  then have "replace_scan (ds @ ''%'') ''%'' '''' = ds @ replace_scan ''%'' ''%'' ''''"
    by (intro replace_scan_skip) simp_all
  then have "ReplaceAll (ds @ ''%'') ''%'' '''' = ds"
    by (simp add: ReplaceAll_def replace_scan_self)
  moreover have "TrimSpace ds = ds"
    using assms digits_hd_last [OF assms] is_digit_ascii by (intro TrimSpace_keep) auto
  ultimately show ?thesis by simp
qed

lemma clean_MiB:
  assumes "ds \<noteq> []" "list_all is_digit ds"
  shows "TrimSpace (ReplaceAll (ds @ '' MiB'') ''MiB'' '''') = ds"
proof -
  have "CHR ''M'' \<notin> set (ds @ '' '')"
    using assms(2) is_digit_not_literal(1) by (auto simp: list_all_iff)
  then have "replace_scan ((ds @ '' '') @ ''MiB'') ''MiB'' '''' = (ds @ '' '') @ replace_scan ''MiB'' ''MiB'' ''''"
    by (intro replace_scan_skip) simp_all
  then have "ReplaceAll (ds @ '' MiB'') ''MiB'' '''' = ds @ '' ''"
    by (simp add: ReplaceAll_def replace_scan_self)
  moreover have "TrimSpace (ds @ '' '') = ds"
    using assms digits_hd_last [OF assms] is_digit_ascii by (intro TrimSpace_trailing_space) auto
  ultimately show ?thesis by simp
qed

lemma ParseInt_digits:
  assumes "ds \<noteq> []" "list_all is_digit ds" "dec_value 0 ds < 2 ^ 63"
  shows "ParseInt ds = (of_nat (dec_value 0 ds), None)"
proof -
  have hd: "hd ds \<noteq> CHR ''+''" "hd ds \<noteq> CHR ''-''"
    using digits_hd_last(1) [OF assms(1,2)] is_digit_not_literal by auto
  have "ParseUint_loop 0 ds = (of_nat (dec_value (unat (0 :: 64 word)) ds), None)"
    using assms(2,3) by (intro ParseUint_loop_digits) simp_all
  then have u: "ParseUint ds = (of_nat (dec_value 0 ds), None)"
    using assms(1) by (simp add: ParseUint_def)
  have "unat (of_nat (dec_value 0 ds) :: 64 word) = dec_value 0 ds"
    using assms(3) by (simp add: unat_of_nat)
  then have small: "\<not> (9223372036854775808 :: 64 word) \<le> of_nat (dec_value 0 ds)"
    using assms(3) by (simp add: word_le_nat_alt)
  show ?thesis
    using assms(1) hd u small by (simp add: ParseInt_def Let_def)
qed

lemma sint_of_nat_small:
  assumes "n < 2 ^ 63"
  shows "sint (of_nat n :: 64 word) = int n"
proof -
  have "int n < int (2 ^ 63)" using assms by (simp only: of_nat_less_iff)
  then have lt: "int n < 2 ^ 63" by simp
  then have "int n < 2 ^ 64" by simp
  then have t: "take_bit 64 (int n) = int n" by (simp add: take_bit_int_eq_self)
  have "sint (of_nat n :: 64 word) = signed_take_bit 63 (take_bit 64 (int n))"
    by (simp add: sint_uint unsigned_of_nat take_bit_of_nat flip: take_bit_of_nat)
  also have "\<dots> = int n"
    unfolding t using lt by (simp add: signed_take_bit_int_eq_self)
  finally show ?thesis .
qed

lemma digit_value_small: "digit_value c = Some d \<Longrightarrow> d < 10 \<Longrightarrow> is_digit c"
  by (auto simp: digit_value_def is_digit_def split: if_splits)

lemma ParseUint_loop_not_digit:
  "\<not> is_digit c \<Longrightarrow> ParseUint_loop n (c # cs) = (0, Some ErrSyntax)"
  using digit_value_small [of c] by (auto split: option.splits)

lemma ParseUint_loop_range_value:
  "snd (ParseUint_loop n s) = Some ErrRange \<Longrightarrow> fst (ParseUint_loop n s) = 18446744073709551615"
  by (induction s arbitrary: n) (auto simp: Let_def split: option.splits if_splits)

lemma ParseUint_loop_syntax_value:
  "snd (ParseUint_loop n s) = Some ErrSyntax \<Longrightarrow> fst (ParseUint_loop n s) = 0"
  by (induction s arbitrary: n) (auto simp: Let_def split: option.splits if_splits)

lemma ParseUint_loop_malformed:
  "\<not> list_all is_digit s \<Longrightarrow> snd (ParseUint_loop n s) \<noteq> None"
proof (induction s arbitrary: n)
  case Nil
  then show ?case by simp
next
  case (Cons c cs)
  show ?case
  proof (cases "is_digit c")
    case False
    then show ?thesis by (simp add: ParseUint_loop_not_digit del: ParseUint_loop.simps)
  next
    case True
    then have "\<not> list_all is_digit cs" using Cons.prems by simp
    then have "\<And>m. snd (ParseUint_loop m cs) \<noteq> None" by (rule Cons.IH)
    then show ?thesis
      by (auto simp: Let_def split: option.splits)
  qed
qed

lemma ParseUint_malformed:
  "s = [] \<or> \<not> list_all is_digit s \<Longrightarrow> snd (ParseUint s) \<noteq> None"
proof (cases "s = []")
  case True
  then show ?thesis by (simp add: ParseUint_def)
next
  case False
  assume "s = [] \<or> \<not> list_all is_digit s"
  then have "snd (ParseUint_loop 0 s) \<noteq> None"
    using False by (intro ParseUint_loop_malformed) simp
  then show ?thesis using False by (simp add: ParseUint_def)
qed

lemma ParseUint_range_value:
  "snd (ParseUint s) = Some ErrRange \<Longrightarrow> fst (ParseUint s) = 18446744073709551615"
  by (auto simp: ParseUint_def ParseUint_loop_range_value split: if_splits)

lemma ParseInt_malformed:
  assumes "\<not> int_syntax s"
  shows "snd (ParseInt s) \<noteq> None"
proof (cases "s = []")
  case True
  then show ?thesis by (simp add: ParseInt_def)
next
  case False
  define s1 where "s1 = (if hd s = CHR ''+'' \<or> hd s = CHR ''-'' then tl s else s)"
  have bad: "s1 = [] \<or> \<not> list_all is_digit s1"
    using assms False by (auto simp: int_syntax_def s1_def Let_def)
  then have e: "snd (ParseUint s1) \<noteq> None" by (rule ParseUint_malformed)
  show ?thesis
  proof (cases "snd (ParseUint s1) = Some ErrRange")
    case True
    then have "fst (ParseUint s1) = 18446744073709551615" by (rule ParseUint_range_value)
    then show ?thesis
      using False True by (simp add: ParseInt_def Let_def flip: s1_def)
  next
    case ns: False
    then show ?thesis
      using False e by (simp add: ParseInt_def Let_def flip: s1_def)
  qed
qed


lemma ParseInt_no_digit:
  assumes "\<not> list_ex is_digit s"
  shows "ParseInt s = (0, Some ErrSyntax)"
proof (cases "s = []")
  case True
  then show ?thesis by (simp add: ParseInt_def)
next
  case False
  define s1 where "s1 = (if hd s = CHR ''+'' \<or> hd s = CHR ''-'' then tl s else s)"
  have "set s1 \<subseteq> set s" using False by (auto simp: s1_def dest: list.set_sel(2))
  then have nd: "\<not> list_ex is_digit s1" using assms by (auto simp: list_ex_iff)
  have "ParseUint s1 = (0, Some ErrSyntax)"
  proof (cases s1)
    case Nil
    then show ?thesis by (simp add: ParseUint_def)
  next
    case (Cons c cs)
    then have "\<not> is_digit c" using nd by simp
    then show ?thesis
      using Cons by (simp add: ParseUint_def ParseUint_loop_not_digit del: ParseUint_loop.simps)
  qed
  then show ?thesis
    using False by (simp add: ParseInt_def Let_def flip: s1_def)
qed

lemma set_TrimRightFunc: "set (TrimRightFunc s f) \<subseteq> set s"
  by (auto simp: TrimRightFunc_def Let_def dest: in_set_takeD)

lemma set_TrimLeftFunc: "set (TrimLeftFunc s f) \<subseteq> set s"
  by (auto simp: TrimLeftFunc_def Let_def dest: in_set_dropD)

lemma set_TrimFunc: "set (TrimFunc s f) \<subseteq> set s"
  using set_TrimRightFunc set_TrimLeftFunc unfolding TrimFunc_def by blast

lemma set_TrimSpace_start:
  "TrimSpace_start s = Inl r \<Longrightarrow> set r \<subseteq> set s"
  "TrimSpace_start s = Inr t \<Longrightarrow> set t \<subseteq> set s"
proof (induction s)
  case Nil
  { case 1 then show ?case by simp }
  { case 2 then show ?case by simp }
next
  case (Cons c cs)
  { case 1 then show ?case using Cons.IH(1) set_TrimFunc [of "c # cs" IsSpace]
      by (auto split: if_splits) }
  { case 2 then show ?case using Cons.IH(2) by (auto split: if_splits) }
qed

lemma set_TrimSpace_stop: "set (TrimSpace_stop s) \<subseteq> set s"
proof (induction s rule: TrimSpace_stop.induct)
  case (1 s)
  show ?case
  proof (cases "s = []")
    case True
    then show ?thesis by (subst TrimSpace_stop.simps) simp
  next
    case False
    show ?thesis
    proof (cases "128 \<le> byte (last s)")
      case True
      then show ?thesis
        using False set_TrimRightFunc [of s IsSpace]
        by (subst TrimSpace_stop.simps) (simp add: Let_def)
    next
      case hi: False
      show ?thesis
      proof (cases "asciiSpace (last s)")
        case True
        have "set (TrimSpace_stop (butlast s)) \<subseteq> set (butlast s)"
          using "1.IH" False hi True by simp
        then have "set (TrimSpace_stop (butlast s)) \<subseteq> set s"
          by (auto dest: in_set_butlastD)
        then show ?thesis
          using False hi True by (subst TrimSpace_stop.simps) (simp add: Let_def)
      next
        case sp: False
        then show ?thesis
          using False hi by (subst TrimSpace_stop.simps) (simp add: Let_def)
      qed
    qed
  qed
qed

lemma set_TrimSpace: "set (TrimSpace s) \<subseteq> set s"
proof (cases "TrimSpace_start s")
  case (Inl r)
  then show ?thesis using set_TrimSpace_start(1) [OF Inl] by (simp add: TrimSpace_def)
next
  case (Inr t)
  then show ?thesis
    using set_TrimSpace_start(2) [OF Inr] set_TrimSpace_stop [of t] by (auto simp: TrimSpace_def)
qed

lemma set_replace_scan: "set (replace_scan s old new) \<subseteq> set s \<union> set new"
proof (induction s old new rule: replace_scan.induct)
  case (1 s old new)
  show ?case
  proof (cases "s = [] \<or> old = []")
    case True
    then show ?thesis by (subst replace_scan.simps) auto
  next
    case False
    show ?thesis
    proof (cases "prefix old s")
      case True
      have "set (replace_scan (drop (length old) s) old new) \<subseteq> set (drop (length old) s) \<union> set new"
        using "1.IH"(1) False True by simp
      then have "set (replace_scan (drop (length old) s) old new) \<subseteq> set s \<union> set new"
        by (auto dest: in_set_dropD)
      then show ?thesis
        using False True by (subst replace_scan.simps) simp
    next
      case np: False
      have "set (replace_scan (tl s) old new) \<subseteq> set (tl s) \<union> set new"
        using "1.IH"(2) False np by simp
      then have "set (replace_scan (tl s) old new) \<subseteq> set s \<union> set new"
        using False by (auto dest: list.set_sel(2))
      then show ?thesis
        using False np by (subst replace_scan.simps) (auto dest: list.set_sel(1))
    qed
  qed
qed

lemma set_ReplaceAll: "set (ReplaceAll s old []) \<subseteq> set s"
  using set_replace_scan [of s old "[]"] by (auto simp: ReplaceAll_def)

lemma clean_no_digit:
  assumes "\<not> list_ex is_digit val"
  shows "\<not> list_ex is_digit (TrimSpace (ReplaceAll val old []))"
  using assms set_TrimSpace [of "ReplaceAll val old []"] set_ReplaceAll [of val old]
  by (auto simp: list_ex_iff)

lemma lastIndexFunc_range:
  "- 1 \<le> lastIndexFunc s f truth \<and> lastIndexFunc s f truth < int (length s)"
proof (induction s f truth rule: lastIndexFunc.induct)
  case (1 s f truth)
  show ?case
  proof (cases "s = []")
    case True
    then show ?thesis by (subst lastIndexFunc.simps, subst lastIndexFunc.simps) simp
  next
    case False
    define rs where "rs = DecodeLastRuneInString s"
    define i where "i = length s - snd rs"
    have w: "1 \<le> snd rs \<and> snd rs \<le> length s"
      unfolding rs_def using False by (rule DecodeLastRuneInString_width)
    then have i: "i < length s" using False by (simp add: i_def)
    show ?thesis
    proof (cases "f (fst rs) = truth")
      case True
      have "lastIndexFunc s f truth = int i"
        using False True by (subst lastIndexFunc.simps) (simp add: Let_def rs_def i_def)
      then show ?thesis using i by simp
    next
      case nf: False
      have eq: "lastIndexFunc s f truth = lastIndexFunc (take i s) f truth"
        using False nf by (subst lastIndexFunc.simps) (simp add: Let_def rs_def i_def)
      have "- 1 \<le> lastIndexFunc (take i s) f truth \<and>
          lastIndexFunc (take i s) f truth < int (length (take i s))"
        using "1.IH" [OF False rs_def i_def] nf by simp
      then show ?thesis unfolding eq using i by simp
    qed
  qed
qed

lemma TrimRightFunc_in_bounds:
  assumes "i = lastIndexFunc s f False" and "0 \<le> i"
  shows "nat i < length s"
    and "nat i + snd (DecodeRuneInString (drop (nat i) s)) \<le> length s"
proof -
  show lt: "nat i < length s" using lastIndexFunc_range [of s f False] assms by simp
  then have "drop (nat i) s \<noteq> []" by simp
  then have "snd (DecodeRuneInString (drop (nat i) s)) \<le> length (drop (nat i) s)"
    using DecodeRuneInString_width by blast
  then show "nat i + snd (DecodeRuneInString (drop (nat i) s)) \<le> length s"
    using lt by simp
qed

lemma skipped_empty: "skipped src a a"
  by (simp add: skipped_def)

lemma skipped_Cons:
  assumes "src a = Line l" and "length (FindStringSubmatch l) < 2" and "skipped src (a + 1) b"
  shows "skipped src a b"
proof (cases "a < b")
  case True
  then have "[a ..< b] = a # [a + 1 ..< b]" by (simp add: upt_conv_Cons)
  then show ?thesis using assms by (simp add: skipped_def)
next
  case False
  then show ?thesis by (simp add: skipped_def)
qed

lemma lines_Cons:
  assumes "src a = Line l" and "a < b"
  shows "concat (map (lines_at src) [a ..< b]) = l # concat (map (lines_at src) [a + 1 ..< b])"
proof -
  have "[a ..< b] = a # [a + 1 ..< b]" using assms(2) by (simp add: upt_conv_Cons)
  then show ?thesis using assms(1) by (simp add: lines_at_def)
qed

lemma trace_ok_stop:
  assumes here: "src (cursor c) = EOF"
    and run: "\<And>src'. src' (cursor c) = EOF \<Longrightarrow> run src' c = Some (ended, c)"
  shows "trace_ok run of_payload of_error ended src c (ended, c)"
proof -
  have "call_outcome of_payload of_error ended src c (ended, c)"
    using here by (simp add: call_outcome_def skipped_empty)
  moreover have "run src' c = Some (ended, c)"
    if "\<forall>i. cursor c \<le> i \<and> i \<le> cursor c \<longrightarrow> src' i = src i" for src'
    using that here by (intro run) simp
  ultimately show ?thesis by (simp add: trace_ok_def)
qed

lemma trace_ok_error:
  assumes here: "src (cursor c) = ScanErr err"
    and c': "c' = c\<lparr>cursor := cursor c + 1\<rparr>"
    and run: "\<And>src'. src' (cursor c) = ScanErr err \<Longrightarrow> run src' c = Some (of_error err, c')"
  shows "trace_ok run of_payload of_error ended src c (of_error err, c')"
proof -
  have "call_outcome of_payload of_error ended src c (of_error err, c')"
    using here by (simp add: call_outcome_def c' skipped_empty lines_at_def)
  moreover have "run src' c = Some (of_error err, c')"
    if "\<forall>i. cursor c \<le> i \<and> i \<le> cursor c' \<longrightarrow> src' i = src i" for src'
    using that here by (intro run) (simp add: c')
  ultimately show ?thesis by (simp add: trace_ok_def)
qed

lemma trace_ok_match:
  assumes here: "src (cursor c) = Line line"
    and c': "c' = c\<lparr>cursor := cursor c + 1, console := console c @ [line]\<rparr>"
    and m: "2 \<le> length (FindStringSubmatch line)"
    and run: "\<And>src'. src' (cursor c) = Line line \<Longrightarrow>
                run src' c = Some (of_payload (FindStringSubmatch line ! 1), c')"
  shows "trace_ok run of_payload of_error ended src c (of_payload (FindStringSubmatch line ! 1), c')"
proof -
  have "call_outcome of_payload of_error ended src c (of_payload (FindStringSubmatch line ! 1), c')"
    using here m by (simp add: call_outcome_def c' skipped_empty lines_at_def)
  moreover have "run src' c = Some (of_payload (FindStringSubmatch line ! 1), c')"
    if "\<forall>i. cursor c \<le> i \<and> i \<le> cursor c' \<longrightarrow> src' i = src i" for src'
    using that here by (intro run) (simp add: c')
  ultimately show ?thesis by (simp add: trace_ok_def)
qed

lemma trace_ok_step:
  assumes here: "src (cursor c) = Line line"
    and c': "c' = c\<lparr>cursor := cursor c + 1, console := console c @ [line]\<rparr>"
    and nm: "length (FindStringSubmatch line) < 2"
    and rest: "trace_ok run of_payload of_error ended src c' y"
    and unfold: "\<And>src'. src' (cursor c) = Line line \<Longrightarrow> run src' c = run src' c'"
  shows "trace_ok run of_payload of_error ended src c y"
proof -
  define a where "a = cursor c"
  define b where "b = cursor (snd y)"
  have ca: "cursor c' = a + 1" and con': "console c' = console c @ [line]"
    by (simp_all add: c' a_def)
  have srca: "src a = Line line" using here by (simp add: a_def)
  have out: "console (snd y) = console c' @ concat (map (lines_at src) [a + 1 ..< b])"
    and alt: "a + 1 < b \<and> skipped src (a + 1) (b - 1) \<and>
         (case src (b - 1) of
            Line l \<Rightarrow>
              2 \<le> length (FindStringSubmatch l) \<and> fst y = of_payload (FindStringSubmatch l ! 1)
          | EOF \<Rightarrow> False
          | ScanErr err \<Rightarrow> fst y = of_error err)
       \<or> a + 1 \<le> b \<and> skipped src (a + 1) b \<and> src b = EOF \<and> fst y = ended"
    using rest by (simp_all add: trace_ok_def call_outcome_def Let_def ca b_def)
  have ab: "a < b" using alt by auto
  have con: "console (snd y) = console c @ concat (map (lines_at src) [a ..< b])"
    unfolding out con' lines_Cons [where src = src and a = a and l = line, OF srca ab] by simp
  have alt': "a < b \<and> skipped src a (b - 1) \<and>
         (case src (b - 1) of
            Line l \<Rightarrow>
              2 \<le> length (FindStringSubmatch l) \<and> fst y = of_payload (FindStringSubmatch l ! 1)
          | EOF \<Rightarrow> False
          | ScanErr err \<Rightarrow> fst y = of_error err)
       \<or> a \<le> b \<and> skipped src a b \<and> src b = EOF \<and> fst y = ended"
    using alt
  proof (elim disjE conjE)
    assume 1: "a + 1 < b" and 2: "skipped src (a + 1) (b - 1)"
      and 3: "case src (b - 1) of
            Line l \<Rightarrow>
              2 \<le> length (FindStringSubmatch l) \<and> fst y = of_payload (FindStringSubmatch l ! 1)
          | EOF \<Rightarrow> False
          | ScanErr err \<Rightarrow> fst y = of_error err"
    have "skipped src a (b - 1)" by (rule skipped_Cons [where src = src and a = a and l = line, OF srca nm 2])
    then show ?thesis using ab 3 by simp
  next
    assume 1: "a + 1 \<le> b" and 2: "skipped src (a + 1) b" and 3: "src b = EOF" and 4: "fst y = ended"
    have "skipped src a b" by (rule skipped_Cons [where src = src and a = a and l = line, OF srca nm 2])
    then show ?thesis using ab 3 4 by simp
  qed
  have co: "call_outcome of_payload of_error ended src c y"
    using con alt' by (simp add: call_outcome_def Let_def a_def b_def)
  have "run src' c = Some y"
    if agree: "\<forall>i. cursor c \<le> i \<and> i \<le> cursor (snd y) \<longrightarrow> src' i = src i" for src'
  proof -
    have "src' (cursor c) = Line line" using agree here ab by (simp add: a_def b_def)
    then have "run src' c = run src' c'" by (rule unfold)
    moreover have "\<forall>i. cursor c' \<le> i \<and> i \<le> cursor (snd y) \<longrightarrow> src' i = src i"
      using agree by (simp add: ca a_def)
    then have "run src' c' = Some y" using rest by (simp add: trace_ok_def)
    ultimately show ?thesis by simp
  qed
  then show ?thesis using co by (simp add: trace_ok_def)
qed

lemma Collect_trace:
  assumes run: "DynologCollector_Collect src unm c = Some y"
  shows "trace_ok (\<lambda>src. DynologCollector_Collect src unm) unm Inl
           (Inl (Msg ''no dynolog JSON lines found yet'')) src c y"
proof (rule DynologCollector_Collect.raw_induct
    [where P = "\<lambda>src unm c y. trace_ok (\<lambda>src. DynologCollector_Collect src unm) unm Inl
           (Inl (Msg ''no dynolog JSON lines found yet'')) src c y",
     OF _ run])
  fix f :: "(nat \<Rightarrow> scan) \<Rightarrow> (string \<Rightarrow> error + DynologData) \<Rightarrow> collector
       \<Rightarrow> ((error + DynologData) \<times> collector) option"
    and src unm c y
  assume IH: "\<And>src unm c y. f src unm c = Some y \<Longrightarrow>
      trace_ok (\<lambda>src. DynologCollector_Collect src unm) unm Inl
           (Inl (Msg ''no dynolog JSON lines found yet'')) src c y"
  assume body: "(case src (cursor c) of
      Line line \<Rightarrow>
        let c' = c\<lparr>cursor := cursor c + 1, console := console c @ [line]\<rparr>;
            m = FindStringSubmatch line
        in if 2 \<le> length m
           then case unm (m ! 1) of Inl err \<Rightarrow> Some (Inl err, c')
                | Inr raw \<Rightarrow> Some (Inr raw, c')
           else f src unm c'
      | EOF \<Rightarrow> Some (Inl (Msg ''no dynolog JSON lines found yet''), c)
      | ScanErr err \<Rightarrow> Some (Inl err, c\<lparr>cursor := cursor c + 1\<rparr>)) = Some y"
  show "trace_ok (\<lambda>src. DynologCollector_Collect src unm) unm Inl
           (Inl (Msg ''no dynolog JSON lines found yet'')) src c y"
  proof (cases "src (cursor c)")
    case EOF
    then have y: "y = (Inl (Msg ''no dynolog JSON lines found yet''), c)"
      using body by simp
    show ?thesis unfolding y
      by (rule trace_ok_stop [where src = src and c = c, OF EOF]) (subst DynologCollector_Collect.simps, simp)
  next
    case (ScanErr err)
    define c' where "c' = c\<lparr>cursor := cursor c + 1\<rparr>"
    have y: "y = (Inl err, c')" using body ScanErr by (simp add: c'_def)
    show ?thesis unfolding y
      by (rule trace_ok_error [where src = src and c = c and err = err and c' = c', OF ScanErr c'_def])
        (subst DynologCollector_Collect.simps, simp add: c'_def)
  next
    case (Line line)
    define c' where "c' = c\<lparr>cursor := cursor c + 1, console := console c @ [line]\<rparr>"
    show ?thesis
    proof (cases "2 \<le> length (FindStringSubmatch line)")
      case True
      have y: "y = (unm (FindStringSubmatch line ! 1), c')"
        using body Line True by (auto simp: Let_def c'_def split: sum.splits)
      show ?thesis unfolding y
      proof (rule trace_ok_match [where src = src and c = c and line = line and c' = c',
            OF Line c'_def True])
        fix src' :: "nat \<Rightarrow> scan"
        assume "src' (cursor c) = Line line"
        then show "DynologCollector_Collect src' unm c = Some (unm (FindStringSubmatch line ! 1), c')"
          using True by (subst DynologCollector_Collect.simps)
            (simp add: Let_def c'_def split: sum.splits)
      qed
    next
      case False
      then have nm: "length (FindStringSubmatch line) < 2" by simp
      have fy: "f src unm c' = Some y"
        using body Line False by (simp add: Let_def c'_def)
      show ?thesis
      proof (rule trace_ok_step [where src = src and c = c and line = line and c' = c',
            OF Line c'_def nm IH [OF fy]])
        fix src' :: "nat \<Rightarrow> scan"
        assume "src' (cursor c) = Line line"
        then show "DynologCollector_Collect src' unm c = DynologCollector_Collect src' unm c'"
          using False by (subst DynologCollector_Collect.simps) (simp add: Let_def c'_def)
      qed
    qed
  qed
qed

lemma Collect_GPUData_trace:
  assumes run: "DynologCollector_Collect_GPUData src rt c = Some y"
  shows "trace_ok (\<lambda>src. DynologCollector_Collect_GPUData src rt) (reading_of_json rt)
           (\<lambda>err. Inl (Wrap ''reading dynolog stderr: '' err))
           (Inl (Msg ''no dynolog JSON lines found yet'')) src c y"
proof (rule DynologCollector_Collect_GPUData.raw_induct
    [where P = "\<lambda>src rt c y. trace_ok (\<lambda>src. DynologCollector_Collect_GPUData src rt)
           (reading_of_json rt) (\<lambda>err. Inl (Wrap ''reading dynolog stderr: '' err))
           (Inl (Msg ''no dynolog JSON lines found yet'')) src c y",
     OF _ run])
  fix f :: "(nat \<Rightarrow> scan) \<Rightarrow> runtime \<Rightarrow> collector \<Rightarrow> ((error + GPUData list) \<times> collector) option"
    and src rt c y
  assume IH: "\<And>src rt c y. f src rt c = Some y \<Longrightarrow>
      trace_ok (\<lambda>src. DynologCollector_Collect_GPUData src rt) (reading_of_json rt)
           (\<lambda>err. Inl (Wrap ''reading dynolog stderr: '' err))
           (Inl (Msg ''no dynolog JSON lines found yet'')) src c y"
  assume body: "(case src (cursor c) of
      Line line \<Rightarrow>
        let c' = c\<lparr>cursor := cursor c + 1, console := console c @ [line]\<rparr>;
            matches = FindStringSubmatch line
        in if length matches < 2
           then f src rt c'
           else Some (reading_of_json rt (matches ! 1), c')
      | EOF \<Rightarrow> Some (Inl (Msg ''no dynolog JSON lines found yet''), c)
      | ScanErr err \<Rightarrow>
          Some (Inl (Wrap ''reading dynolog stderr: '' err), c\<lparr>cursor := cursor c + 1\<rparr>)) = Some y"
  show "trace_ok (\<lambda>src. DynologCollector_Collect_GPUData src rt) (reading_of_json rt)
           (\<lambda>err. Inl (Wrap ''reading dynolog stderr: '' err))
           (Inl (Msg ''no dynolog JSON lines found yet'')) src c y"
  proof (cases "src (cursor c)")
    case EOF
    then have y: "y = (Inl (Msg ''no dynolog JSON lines found yet''), c)"
      using body by simp
    show ?thesis unfolding y
      by (rule trace_ok_stop [where src = src and c = c, OF EOF]) (subst DynologCollector_Collect_GPUData.simps, simp)
  next
    case (ScanErr err)
    define c' where "c' = c\<lparr>cursor := cursor c + 1\<rparr>"
    have y: "y = (Inl (Wrap ''reading dynolog stderr: '' err), c')"
      using body ScanErr by (simp add: c'_def)
    show ?thesis unfolding y
      by (rule trace_ok_error
            [where src = src and c = c and err = err and c' = c'
               and of_error = "\<lambda>err. Inl (Wrap ''reading dynolog stderr: '' err)",
             OF ScanErr c'_def])
        (subst DynologCollector_Collect_GPUData.simps, simp add: c'_def)
  next
    case (Line line)
    define c' where "c' = c\<lparr>cursor := cursor c + 1, console := console c @ [line]\<rparr>"
    show ?thesis
    proof (cases "length (FindStringSubmatch line) < 2")
      case False
      then have m: "2 \<le> length (FindStringSubmatch line)" by simp
      have y: "y = (reading_of_json rt (FindStringSubmatch line ! 1), c')"
        using body Line False by (auto simp: Let_def c'_def)
      show ?thesis unfolding y
      proof (rule trace_ok_match [where src = src and c = c and line = line and c' = c'
              and of_payload = "reading_of_json rt", OF Line c'_def m])
        fix src' :: "nat \<Rightarrow> scan"
        assume "src' (cursor c) = Line line"
        then show "DynologCollector_Collect_GPUData src' rt c =
            Some (reading_of_json rt (FindStringSubmatch line ! 1), c')"
          using False by (subst DynologCollector_Collect_GPUData.simps) (simp add: Let_def c'_def)
      qed
    next
      case True
      then have fy: "f src rt c' = Some y"
        using body Line by (simp add: Let_def c'_def)
      show ?thesis
      proof (rule trace_ok_step [where src = src and c = c and line = line and c' = c',
            OF Line c'_def True IH [OF fy]])
        fix src' :: "nat \<Rightarrow> scan"
        assume "src' (cursor c) = Line line"
        then show "DynologCollector_Collect_GPUData src' rt c = DynologCollector_Collect_GPUData src' rt c'"
          using True by (subst DynologCollector_Collect_GPUData.simps) (simp add: Let_def c'_def)
      qed
    qed
  qed
qed



lemma ParseFloat_syntax_value:
  assumes a: "snd (ParseFloat s) = Some ErrSyntax"
  shows "fst (ParseFloat s) = Finite False 0 0"
proof (cases "special s")
  case None
  show ?thesis
  proof (cases "readFloat s")
    case n2: None
    with None show ?thesis by (simp add: ParseFloat_def)
  next
    case (Some r)
    show ?thesis
    proof (cases "consumed r \<noteq> length s")
      case True
      with None Some show ?thesis by (simp add: ParseFloat_def)
    next
      case False
      define f where "f = (if hex r then round64 (neg r) (digits r) (exponent r)
                          else decimal_to_float64 (neg r) (digits r) (exponent r))"
      have "ParseFloat s = (case f of Infinity sg \<Rightarrow> (f, Some ErrRange) | _ \<Rightarrow> (f, None))"
        unfolding f_def using None Some False by (simp add: ParseFloat_def Let_def)
      then have "snd (ParseFloat s) \<noteq> Some ErrSyntax"
        by (cases f) simp_all
      with a show ?thesis by simp
    qed
  qed
next
  case (Some p)
  obtain f n where p: "p = (f, n)" by (cases p)
  show ?thesis
  proof (cases "n \<noteq> length s")
    case True
    with Some p show ?thesis by (simp add: ParseFloat_def)
  next
    case False
    with Some p have "snd (ParseFloat s) = None" by (simp add: ParseFloat_def)
    with a show ?thesis by simp
  qed
qed

lemma readFloat_bad_start:
  assumes "c \<noteq> CHR ''+''" "c \<noteq> CHR ''-''" "c \<noteq> CHR ''_''" "c \<noteq> CHR ''.''"
    and nd: "byte c < 48 \<or> 57 < byte c"
  shows "readFloat (c # cs) = None"
proof -
  have nz: "c \<noteq> CHR ''0''" using nd by (auto simp: byte_def)
  have notdig: "\<not> (48 \<le> byte c \<and> byte c \<le> 57)" using nd by auto
  have d: "readFloat_digits False st (c # cs) = (st, c # cs)" for st
    by (simp only: readFloat_digits.simps assms(1-4) notdig if_False simp_thms)
  show ?thesis
    by (simp add: readFloat_def Let_def assms(1,2) nz d del: readFloat_digits.simps)
qed

lemma ParseFloat_bad_start:
  assumes "c \<noteq> CHR ''+''" "c \<noteq> CHR ''-''" "c \<noteq> CHR ''_''" "c \<noteq> CHR ''.''"
    and "byte c < 48 \<or> 57 < byte c"
    and "c \<noteq> CHR ''i''" "c \<noteq> CHR ''I''" "c \<noteq> CHR ''n''" "c \<noteq> CHR ''N''"
  shows "ParseFloat (c # cs) = (Finite False 0 0, Some ErrSyntax)"
proof -
  have "special (c # cs) = None" using assms by (simp add: special_def)
  moreover have "readFloat (c # cs) = None" using assms by (intro readFloat_bad_start)
  ultimately show ?thesis by (simp add: ParseFloat_def)
qed

lemma ParseFloat_Sprintf_v:
  assumes "\<not> (\<exists>f. v = JNumber f)" "\<not> (\<exists>s. v = JString s)"
  shows "ParseFloat (Sprintf_v fmt v) = (Finite False 0 0, Some ErrSyntax)"
proof (cases v)
  case JNil
  have "ParseFloat (CHR ''<'' # ''nil>'') = (Finite False 0 0, Some ErrSyntax)"
    by (rule ParseFloat_bad_start) (simp_all add: byte_def)
  then show ?thesis using JNil by simp
next
  case (JBool b)
  have "ParseFloat (CHR ''t'' # ''rue'') = (Finite False 0 0, Some ErrSyntax)"
    by (rule ParseFloat_bad_start) (simp_all add: byte_def)
  moreover have "ParseFloat (CHR ''f'' # ''alse'') = (Finite False 0 0, Some ErrSyntax)"
    by (rule ParseFloat_bad_start) (simp_all add: byte_def)
  ultimately show ?thesis using JBool by simp
next
  case (JArray xs)
  have "ParseFloat (CHR ''['' # t) = (Finite False 0 0, Some ErrSyntax)" for t
    by (rule ParseFloat_bad_start) (simp_all add: byte_def)
  then show ?thesis using JArray by simp
next
  case (JObject kvs)
  have "ParseFloat (CHR ''m'' # t) = (Finite False 0 0, Some ErrSyntax)" for t
    by (rule ParseFloat_bad_start) (simp_all add: byte_def)
  then show ?thesis using JObject by simp
next
  case (JNumber f)
  then show ?thesis using assms by simp
next
  case (JString s)
  then show ?thesis using assms by simp
qed

lemma parseOptionalFloat_non_numeric:
  assumes "non_numeric v"
  shows "parseOptionalFloat rt v = Finite False 0 0"
proof (cases "(\<exists>f. v = JNumber f) \<or> (\<exists>s. v = JString s)")
  case True
  then show ?thesis
    using assms by (auto simp: non_numeric_def parseOptionalFloat_def ParseFloat_syntax_value)
next
  case False
  then have "ParseFloat (Sprintf_v (FormatFloat_g rt) v) = (Finite False 0 0, Some ErrSyntax)"
    by (intro ParseFloat_Sprintf_v) auto
  then show ?thesis by (simp add: parseOptionalFloat_def)
qed

lemma float64_const_values:
  "float64_const 1024 = Finite False 1 10" "float64_const 100 = Finite False 25 2"
  by code_simp+

lemma fmul_zero: "fmul (Finite False 0 0) (Finite s m e) = Finite s 0 0"
  by (simp add: round64_def)

lemma int64_of_zero: "int64_of_float64 impl (Finite s 0 0) = 0"
  by (simp add: int64_of_float64_def float64_trunc_def)

lemma index_map_absent: "map_of j key = None \<Longrightarrow> index_map j key = JNil"
  by (simp add: index_map_def)

lemma round64_zero: "round64 s 0 E = Finite s 0 0"
  by (simp add: round64_def)

lemma zero_times_const:
  "int64_of_float64 impl (fmul (fmul (Finite False 0 0) (float64_const 1024)) (float64_const 1024)) = 0"
  "int64_of_float64 impl (fmul (Finite False 0 0) (float64_const 100)) = 0"
  by (simp_all add: float64_const_values round64_zero int64_of_zero)

subsection \<open>Readings of in-range fields\<close>






subsection \<open>Rounding to \<^verbatim>\<open>float64\<close>\<close>










































text \<open>
  Two examples of the rounding in \<^verbatim>\<open>int64(util * 100)\<close>. The field \<^verbatim>\<open>"0.29"\<close> reads as
  the \<^verbatim>\<open>float64\<close> \<open>0.28999999999999998\<close>, the product is \<open>28.999999999999996\<close>, and the
  percentage is 28. The field \<^verbatim>\<open>"0.35"\<close> reads as \<open>0.34999999999999998\<close>, the exact
  product \<open>34.999999999999998\<close> is rounded to the \<^verbatim>\<open>float64\<close> 35, and the percentage is
  35, one more than the exact product truncated.
\<close>

lemma utilization_of_0_29:
  "ParseFloat ''0.29'' = (Finite False 5224175567749775 (- 54), None)"
  "fmul (Finite False 5224175567749775 (- 54)) (float64_const 100) = Finite False 8162774324609023 (- 48)"
  "int64_of_float64 impl (Finite False 8162774324609023 (- 48)) = 28"
  by code_simp+

lemma utilization_of_0_35:
  "ParseFloat ''0.35'' = (Finite False 3152519739159347 (- 53), None)"
  "fmul (Finite False 3152519739159347 (- 53)) (float64_const 100) = Finite False 35 0"
  "int64_of_float64 impl (Finite False 35 0) = 35"
  "\<lfloor>valof (Finite False 3152519739159347 (- 53)) * 100\<rfloor> = 34"
proof -
  show "ParseFloat ''0.35'' = (Finite False 3152519739159347 (- 53), None)" by code_simp
  show "fmul (Finite False 3152519739159347 (- 53)) (float64_const 100) = Finite False 35 0"
    by code_simp
  show "int64_of_float64 impl (Finite False 35 0) = 35" by code_simp
  have "valof (Finite False 3152519739159347 (- 53)) * 100 = 315251973915934700 / 9007199254740992"
    by (simp add: valof_def power_int_minus)
  then show "\<lfloor>valof (Finite False 3152519739159347 (- 53)) * 100\<rfloor> = 34"
    by (simp add: floor_eq_iff)
qed

subsection \<open>What trimming and replacing keep\<close>

lemma acceptRange_lo: "128 \<le> fst (acceptRange s0)"
  by (simp add: acceptRange_def)

lemma wide_rune_bytes:
  assumes "1 < snd (DecodeRuneInString s)" and "b \<in> set (take (snd (DecodeRuneInString s)) s)"
  shows "128 \<le> byte b"
proof (cases s)
  case Nil
  then show ?thesis using assms by (simp add: DecodeRuneInString_def)
next
  case (Cons c0 t0)
  define lo where "lo = fst (acceptRange (byte c0))"
  have lo: "128 \<le> lo" unfolding lo_def by (rule acceptRange_lo)
  show ?thesis
    using assms lo unfolding Cons lo_def [symmetric]
    by (auto simp: DecodeRuneInString_def Let_def lo_def [symmetric]
          split: list.splits if_splits)
qed

lemma narrow_rune:
  assumes "s \<noteq> []" and "snd (DecodeRuneInString s) \<le> 1"
  shows "fst (DecodeRuneInString s) = (if byte (hd s) < 128 then byte (hd s) else RuneError)"
  using assms
  by (cases s) (auto simp: DecodeRuneInString_def Let_def split: list.splits if_splits)

lemma IsSpace_ascii: "r < 128 \<Longrightarrow> IsSpace r \<Longrightarrow> r = 9 \<or> r = 10 \<or> r = 11 \<or> r = 12 \<or> r = 13 \<or> r = 32"
  by (auto simp: IsSpace_def split: if_splits)

lemma not_IsSpace_RuneError: "\<not> IsSpace RuneError"
  by (simp add: IsSpace_def RuneError_def)

text \<open>The bytes of a white-space rune are ASCII white space or not ASCII at all.\<close>

lemma space_rune_bytes:
  assumes ne: "s \<noteq> []" and sp: "IsSpace (fst (DecodeRuneInString s))"
    and b: "b \<in> set (take (snd (DecodeRuneInString s)) s)"
  shows "128 \<le> byte b \<or> asciiSpace b"
proof (cases "1 < snd (DecodeRuneInString s)")
  case True
  then show ?thesis using wide_rune_bytes [OF True b] by simp
next
  case False
  then have w: "snd (DecodeRuneInString s) \<le> 1" by simp
  have "b \<in> set (take 1 s)" using b w set_take_subset_set_take [of "snd (DecodeRuneInString s)" 1 s]
    by blast
  then have bh: "b = hd s" using ne by (cases s) simp_all
  show ?thesis
  proof (cases "byte (hd s) < 128")
    case True
    then have "fst (DecodeRuneInString s) = byte (hd s)" using narrow_rune [OF ne w] by simp
    then have "IsSpace (byte b)" using sp bh by simp
    then show ?thesis using IsSpace_ascii [of "byte b"] True bh by (auto simp: asciiSpace_def)
  next
    case False
    then show ?thesis using bh by simp
  qed
qed

lemma last_rune_cases:
  assumes ne: "s \<noteq> []"
  obtains (ascii) "byte (last s) < 128" "DecodeLastRuneInString s = (byte (last s), 1)"
  | (invalid) "DecodeLastRuneInString s = (RuneError, 1)"
  | (rune) start where "start < length s"
      "DecodeLastRuneInString s = DecodeRuneInString (drop start s)"
      "start + snd (DecodeRuneInString (drop start s)) = length s"
proof (cases "byte (last s) < 128")
  case True
  then show ?thesis using ne ascii by (simp add: DecodeLastRuneInString_def Let_def)
next
  case False
  define start0 where "start0 = find_start s (int (length s) - 2) (max 0 (int (length s) - 4))"
  define start where "start = (if start0 < 0 then 0 else start0)"
  define rs where "rs = DecodeRuneInString (drop (nat start) s)"
  have eq: "DecodeLastRuneInString s =
      (if start + int (snd rs) \<noteq> int (length s) then (RuneError, 1) else rs)"
    using ne False
    by (simp add: DecodeLastRuneInString_def Let_def start0_def start_def rs_def)
  have nonneg: "0 \<le> start" by (simp add: start_def)
  have len: "1 \<le> length s" using ne by (cases s) auto
  have "start0 \<le> int (length s) - 2" unfolding start0_def by (rule find_start_le)
  then have lt: "start < int (length s)" using len by (auto simp: start_def)
  show ?thesis
  proof (cases "start + int (snd rs) \<noteq> int (length s)")
    case True
    then show ?thesis using eq invalid by simp
  next
    case F: False
    have a: "nat start < length s" using lt nonneg by simp
    have b: "DecodeLastRuneInString s = DecodeRuneInString (drop (nat start) s)"
      using eq F by (simp add: rs_def)
    have c: "nat start + snd (DecodeRuneInString (drop (nat start) s)) = length s"
      using F nonneg by (simp add: rs_def)
    show ?thesis using rune [OF a b c] .
  qed
qed

lemma last_wide_bytes:
  assumes ne: "s \<noteq> []" and w: "1 < snd (DecodeLastRuneInString s)"
    and b: "b \<in> set (drop (length s - snd (DecodeLastRuneInString s)) s)"
  shows "128 \<le> byte b"
  using ne
proof (cases rule: last_rune_cases)
  case ascii
  then show ?thesis using w by simp
next
  case invalid
  then show ?thesis using w by simp
next
  case (rune start)
  define t where "t = drop start s"
  have wt: "snd (DecodeRuneInString t) = length t" using rune(3) by (simp add: t_def)
  have "length s - snd (DecodeLastRuneInString s) = start" using rune by simp
  then have "b \<in> set t" using b by (simp add: t_def)
  then have "b \<in> set (take (snd (DecodeRuneInString t)) t)" using wt by simp
  moreover have "1 < snd (DecodeRuneInString t)" using w rune(2) by (simp add: t_def)
  ultimately show ?thesis by (intro wide_rune_bytes [of t b])
qed

lemma last_space_bytes:
  assumes ne: "s \<noteq> []" and sp: "IsSpace (fst (DecodeLastRuneInString s))"
    and b: "b \<in> set (drop (length s - snd (DecodeLastRuneInString s)) s)"
  shows "128 \<le> byte b \<or> asciiSpace b"
  using ne
proof (cases rule: last_rune_cases)
  case ascii
  have "drop (length (butlast s)) (butlast s @ [last s]) = [last s]" by simp
  then have "drop (length s - 1) s = [last s]" using ne by simp
  then have "b = last s" using b ascii by simp
  moreover have "IsSpace (byte (last s))" using sp ascii by simp
  ultimately show ?thesis using IsSpace_ascii [of "byte b"] ascii(1) by (auto simp: asciiSpace_def)
next
  case invalid
  then show ?thesis using sp not_IsSpace_RuneError by simp
next
  case (rune start)
  define t where "t = drop start s"
  have tne: "t \<noteq> []" using rune(1) by (simp add: t_def)
  have wt: "snd (DecodeRuneInString t) = length t" using rune(3) by (simp add: t_def)
  have "length s - snd (DecodeLastRuneInString s) = start" using rune by simp
  then have "b \<in> set t" using b by (simp add: t_def)
  then have "b \<in> set (take (snd (DecodeRuneInString t)) t)" using wt by simp
  moreover have "IsSpace (fst (DecodeRuneInString t))" using sp rune(2) by (simp add: t_def)
  ultimately show ?thesis using tne by (intro space_rune_bytes [of t b])
qed

lemma indexFunc_from_keeps:
  assumes "byte c < 128" and "\<not> asciiSpace c" and "c \<in> set (drop k s)"
  shows "0 \<le> indexFunc_from s IsSpace False k \<and>
         c \<in> set (drop (nat (indexFunc_from s IsSpace False k)) s)"
  using assms(3)
proof (induction s IsSpace False k rule: indexFunc_from.induct)
  case (1 s i)
  have lt: "\<not> length s \<le> i" using "1.prems" by (cases "length s \<le> i") simp_all
  define rs where "rs = DecodeRuneInString (drop i s)"
  have ne: "drop i s \<noteq> []" using lt by simp
  show ?case
  proof (cases "IsSpace (fst rs)")
    case False
    then have "indexFunc_from s IsSpace False i = int i"
      using lt by (subst indexFunc_from.simps) (simp add: Let_def rs_def)
    then show ?thesis using "1.prems" by simp
  next
    case True
    then have eq: "indexFunc_from s IsSpace False i = indexFunc_from s IsSpace False (i + snd rs)"
      using lt by (subst indexFunc_from.simps) (simp add: Let_def rs_def)
    have "c \<notin> set (take (snd rs) (drop i s))"
      using space_rune_bytes [OF ne, of c] True assms(1,2) unfolding rs_def by auto
    moreover have "set (drop i s) = set (take (snd rs) (drop i s)) \<union> set (drop (snd rs) (drop i s))"
      by (metis append_take_drop_id set_append)
    ultimately have "c \<in> set (drop (snd rs) (drop i s))" using "1.prems" by blast
    then have "c \<in> set (drop (i + snd rs) s)" by (simp add: add.commute)
    then show ?thesis unfolding eq using "1.hyps" [OF lt rs_def] True by simp
  qed
qed

lemma TrimLeftFunc_keeps:
  assumes "byte c < 128" and "\<not> asciiSpace c" and "c \<in> set s"
  shows "c \<in> set (TrimLeftFunc s IsSpace)"
proof -
  have "c \<in> set (drop 0 s)" using assms(3) by simp
  then have "0 \<le> indexFunc s IsSpace False \<and> c \<in> set (drop (nat (indexFunc s IsSpace False)) s)"
    unfolding indexFunc_def by (rule indexFunc_from_keeps [OF assms(1,2)])
  then show ?thesis by (auto simp: TrimLeftFunc_def Let_def)
qed

lemma lastIndexFunc_keeps:
  assumes "byte c < 128" and "\<not> asciiSpace c" and "c \<in> set s"
  shows "0 \<le> lastIndexFunc s IsSpace False \<and>
         c \<in> set (take (nat (lastIndexFunc s IsSpace False) + 1) s)"
  using assms(3)
proof (induction s IsSpace False rule: lastIndexFunc.induct)
  case (1 s)
  have ne: "s \<noteq> []" using "1.prems" by auto
  define rs where "rs = DecodeLastRuneInString s"
  define i where "i = length s - snd rs"
  have w: "1 \<le> snd rs \<and> snd rs \<le> length s"
    unfolding rs_def using ne by (rule DecodeLastRuneInString_width)
  have split: "set s = set (take i s) \<union> set (drop i s)"
    by (metis append_take_drop_id set_append)
  show ?case
  proof (cases "IsSpace (fst rs)")
    case False
    then have eq: "lastIndexFunc s IsSpace False = int i"
      using ne by (subst lastIndexFunc.simps) (simp add: Let_def rs_def i_def)
    have "c \<in> set (take (i + 1) s)"
    proof (cases "1 < snd rs")
      case True
      then have "c \<notin> set (drop i s)"
        using last_wide_bytes [OF ne, of c] assms(1) unfolding rs_def i_def by auto
      then have "c \<in> set (take i s)" using split "1.prems" by blast
      then show ?thesis using set_take_subset_set_take [of i "i + 1" s] by auto
    next
      case F: False
      then have "snd rs = 1" using w by simp
      then have "i + 1 = length s" using w by (simp add: i_def)
      then show ?thesis using "1.prems" by simp
    qed
    then show ?thesis unfolding eq by simp
  next
    case True
    then have eq: "lastIndexFunc s IsSpace False = lastIndexFunc (take i s) IsSpace False"
      using ne by (subst lastIndexFunc.simps) (simp add: Let_def rs_def i_def)
    have "c \<notin> set (drop i s)"
      using last_space_bytes [OF ne, of c] True assms(1,2) unfolding rs_def i_def by auto
    then have ci: "c \<in> set (take i s)" using split "1.prems" by blast
    have IH: "0 \<le> lastIndexFunc (take i s) IsSpace False \<and>
        c \<in> set (take (nat (lastIndexFunc (take i s) IsSpace False) + 1) (take i s))"
      using "1.hyps" [OF ne rs_def i_def _ ci] True by simp
    have "set (take (nat (lastIndexFunc (take i s) IsSpace False) + 1) (take i s)) \<subseteq>
        set (take (nat (lastIndexFunc (take i s) IsSpace False) + 1) s)"
      by (simp add: take_take min_def set_take_subset_set_take)
    then show ?thesis unfolding eq using IH by blast
  qed
qed

lemma TrimRightFunc_keeps:
  assumes "byte c < 128" and "\<not> asciiSpace c" and "c \<in> set s"
  shows "c \<in> set (TrimRightFunc s IsSpace)"
proof -
  define i where "i = lastIndexFunc s IsSpace False"
  have k: "0 \<le> i" "c \<in> set (take (nat i + 1) s)"
    using lastIndexFunc_keeps [OF assms] by (simp_all add: i_def)
  have lt: "nat i < length s" using TrimRightFunc_in_bounds(1) [OF i_def k(1)] .
  then have "drop (nat i) s \<noteq> []" by simp
  then have "1 \<le> snd (DecodeRuneInString (drop (nat i) s))"
    using DecodeRuneInString_width by blast
  then have "set (take (nat i + 1) s) \<subseteq>
      set (take (nat i + snd (DecodeRuneInString (drop (nat i) s))) s)"
    by (intro set_take_subset_set_take) simp
  moreover have "nat (i + 1) = nat i + 1" using k(1) by simp
  ultimately show ?thesis
    using k unfolding TrimRightFunc_def Let_def i_def [symmetric] by auto
qed

lemma TrimFunc_keeps:
  assumes "byte c < 128" and "\<not> asciiSpace c" and "c \<in> set s"
  shows "c \<in> set (TrimFunc s IsSpace)"
  unfolding TrimFunc_def
  by (rule TrimRightFunc_keeps [OF assms(1,2) TrimLeftFunc_keeps [OF assms]])

lemma TrimSpace_start_keeps:
  assumes "byte c < 128" and "\<not> asciiSpace c"
  shows "c \<in> set s \<Longrightarrow> c \<in> set (case TrimSpace_start s of Inl r \<Rightarrow> r | Inr t \<Rightarrow> t)"
proof (induction s)
  case Nil
  then show ?case by simp
next
  case (Cons c0 cs)
  show ?case
  proof (cases "128 \<le> byte c0")
    case True
    then show ?thesis using TrimFunc_keeps [OF assms Cons.prems] by simp
  next
    case False
    show ?thesis
    proof (cases "asciiSpace c0")
      case F: False
      then show ?thesis using False Cons.prems by simp
    next
      case True
      then have "c \<noteq> c0" using assms(2) by auto
      then have "c \<in> set cs" using Cons.prems by simp
      then show ?thesis using Cons.IH True False by simp
    qed
  qed
qed

lemma TrimSpace_stop_keeps:
  assumes "byte c < 128" and "\<not> asciiSpace c"
  shows "c \<in> set s \<Longrightarrow> c \<in> set (TrimSpace_stop s)"
proof (induction s rule: TrimSpace_stop.induct)
  case (1 s)
  have ne: "s \<noteq> []" using "1.prems" by auto
  show ?case
  proof (cases "128 \<le> byte (last s)")
    case True
    then have "TrimSpace_stop s = TrimRightFunc s IsSpace"
      using ne by (subst TrimSpace_stop.simps) (simp add: Let_def)
    then show ?thesis using TrimRightFunc_keeps [OF assms "1.prems"] by simp
  next
    case False
    show ?thesis
    proof (cases "asciiSpace (last s)")
      case F: False
      then have "TrimSpace_stop s = s"
        using ne False by (subst TrimSpace_stop.simps) (simp add: Let_def)
      then show ?thesis using "1.prems" by simp
    next
      case True
      then have eq: "TrimSpace_stop s = TrimSpace_stop (butlast s)"
        using ne False by (subst TrimSpace_stop.simps) (simp add: Let_def)
      have "c \<noteq> last s" using True assms(2) by auto
      moreover have "set s = set (butlast s) \<union> {last s}"
        using ne by (metis append_butlast_last_id set_append list.set(1) list.set(2))
      ultimately have "c \<in> set (butlast s)" using "1.prems" by blast
      then show ?thesis unfolding eq using "1.IH" [OF ne _ _ _] False True by simp
    qed
  qed
qed

lemma TrimSpace_keeps:
  assumes "byte c < 128" and "\<not> asciiSpace c" and "c \<in> set s"
  shows "c \<in> set (TrimSpace s)"
proof (cases "TrimSpace_start s")
  case (Inl r)
  then show ?thesis using TrimSpace_start_keeps [OF assms] by (simp add: TrimSpace_def)
next
  case (Inr t)
  then have "c \<in> set t" using TrimSpace_start_keeps [OF assms] by simp
  then show ?thesis using Inr TrimSpace_stop_keeps [OF assms(1,2)] by (simp add: TrimSpace_def)
qed

lemma replace_scan_keeps:
  "c \<notin> set old \<Longrightarrow> c \<in> set s \<Longrightarrow> c \<in> set (replace_scan s old [])"
proof (induction s old "[] :: string" rule: replace_scan.induct)
  case (1 s old)
  show ?case
  proof (cases "s = [] \<or> old = []")
    case True
    then show ?thesis using "1.prems" by (subst replace_scan.simps) simp
  next
    case False
    show ?thesis
    proof (cases "prefix old s")
      case True
      then obtain rest where s: "s = old @ rest" by (auto simp: prefix_def)
      have eq: "replace_scan s old [] = replace_scan (drop (length old) s) old []"
        using False True by (subst replace_scan.simps) simp
      have "c \<in> set rest" using "1.prems"(2) "1.prems"(1) s by simp
      then have "c \<in> set (drop (length old) s)" by (simp add: s)
      then show ?thesis unfolding eq using "1.hyps"(1) False True "1.prems"(1) by simp
    next
      case np: False
      have eq: "replace_scan s old [] = hd s # replace_scan (tl s) old []"
        using False np by (subst replace_scan.simps) simp
      have "c = hd s \<or> c \<in> set (tl s)" using "1.prems"(2) False by (cases s) auto
      then show ?thesis unfolding eq using "1.hyps"(2) False np "1.prems"(1) by auto
    qed
  qed
qed

lemma foreign_not_int_syntax:
  assumes "foreign unit c" and "c \<in> set t"
  shows "\<not> int_syntax t"
proof
  assume a: "int_syntax t"
  define t' where "t' = (if t \<noteq> [] \<and> (hd t = CHR ''+'' \<or> hd t = CHR ''-'') then tl t else t)"
  have d: "list_all is_digit t'" using a by (simp add: int_syntax_def Let_def t'_def)
  have "c \<in> set t'"
  proof (cases "t \<noteq> [] \<and> (hd t = CHR ''+'' \<or> hd t = CHR ''-'')")
    case True
    then have "c \<noteq> hd t" using assms(1) by (auto simp: foreign_def)
    then have "c \<in> set (tl t)" using assms(2) True by (cases t) auto
    then show ?thesis using True by (simp add: t'_def)
  next
    case False
    then show ?thesis using assms(2) by (auto simp: t'_def)
  qed
  then have "is_digit c" using d by (simp add: list_all_iff)
  then show False using assms(1) by (simp add: foreign_def)
qed

lemma foreign_cleaned:
  assumes "list_ex (foreign unit) val" and "unit \<noteq> []"
  shows "\<not> int_syntax (TrimSpace (ReplaceAll val unit ''''))"
proof -
  obtain c where c: "c \<in> set val" "foreign unit c" using assms(1) by (auto simp: list_ex_iff)
  have "c \<in> set (replace_scan val unit [])"
    using c by (intro replace_scan_keeps) (simp_all add: foreign_def)
  then have "c \<in> set (ReplaceAll val unit '''')" using assms(2) by (simp add: ReplaceAll_def)
  then have "c \<in> set (TrimSpace (ReplaceAll val unit ''''))"
    using c(2) by (intro TrimSpace_keeps) (simp_all add: foreign_def)
  then show ?thesis using foreign_not_int_syntax [OF c(2)] by blast
qed

section \<open>The claims\<close>


text \<open>
  C1. The Snapshot Collector, given a document with exactly one device record (id "0",
  product name "Test-GPU", memory used "1024 MiB", utilization "42%"), returns exactly one
  reading, \<open>{device_id: "0", device_name: "Test-GPU", memory_used_bytes: 1073741824,
  utilization_percent: 42}\<close>, and no error.
\<close>

theorem C1_snapshot_round_trip:
  assumes "xml_Unmarshal out =
     Inr \<lparr>GPUs = [\<lparr>gpu_ID = ''0'', ProductName = ''Test-GPU'',
                     FBMemory = \<lparr>Used = ''1024 MiB''\<rparr>,
                     Utilization = \<lparr>GPUUtil = ''42%''\<rparr>\<rparr>]\<rparr>"
  shows "NvidiaSMICollector_Collect (Inr out) xml_Unmarshal =
     Inr [\<lparr>ID = ''0'', Name = ''Test-GPU'',
           MemoryUsedBytes = 1073741824, GPUUtilPercent = 42\<rparr>]"
proof -
  have mem: "parseMemory ''1024 MiB'' = (1073741824, None)" by code_simp
  have util: "parsePercentage ''42%'' = (42, None)" by code_simp
  show ?thesis
    using assms by (simp add: NvidiaSMICollector_Collect_def mem util)
qed

theorem C1_snapshot_round_trip_witness:
  "NvidiaSMICollector_Collect (Inr ''<nvidia_smi_log/>'')
     (\<lambda>out. Inr \<lparr>GPUs = [\<lparr>gpu_ID = ''0'', ProductName = ''Test-GPU'',
                     FBMemory = \<lparr>Used = ''1024 MiB''\<rparr>,
                     Utilization = \<lparr>GPUUtil = ''42%''\<rparr>\<rparr>]\<rparr>) =
     Inr [\<lparr>ID = ''0'', Name = ''Test-GPU'',
           MemoryUsedBytes = 1073741824, GPUUtilPercent = 42\<rparr>]"
  by (rule C1_snapshot_round_trip) simp

text \<open>
  C2. For every valid string \<open>"<n> MiB"\<close>, \<open>n\<close> a decimal integer, the memory
  normalizer returns \<open>n * 1024 * 1024\<close>; for every valid string \<open>"<n>%"\<close> the
  percentage normalizer returns \<open>n\<close>. As stated, for every \<open>n\<close>, this is false:
  results are \<^verbatim>\<open>int64\<close>. It holds for digit strings \<open>ds\<close> whose value is below
  \<open>2^43\<close> (memory, so that the product is below \<open>2^63\<close>) and below \<open>2^63\<close>
  (percentage); no error is returned there.
\<close>

theorem C2_normalizers_on_valid_strings:
  assumes "ds \<noteq> []" and "list_all is_digit ds"
  shows "(dec_value 0 ds < 2 ^ 43 \<longrightarrow>
            parseMemory (ds @ '' MiB'') = (of_nat (dec_value 0 ds * 1024 * 1024), None) \<and>
            sint (fst (parseMemory (ds @ '' MiB''))) = int (dec_value 0 ds) * 1024 * 1024) \<and>
         (dec_value 0 ds < 2 ^ 63 \<longrightarrow>
            parsePercentage (ds @ ''%'') = (of_nat (dec_value 0 ds), None) \<and>
            sint (fst (parsePercentage (ds @ ''%''))) = int (dec_value 0 ds))"
proof (intro conjI impI)
  assume small: "dec_value 0 ds < 2 ^ 43"
  then have lt: "dec_value 0 ds < 2 ^ 63" by simp
  have big: "dec_value 0 ds * 1024 * 1024 < 2 ^ 63" using small by simp
  have "ParseInt (TrimSpace (ReplaceAll (ds @ '' MiB'') ''MiB'' '''')) = (of_nat (dec_value 0 ds), None)"
    using assms lt by (simp add: clean_MiB ParseInt_digits)
  then show m: "parseMemory (ds @ '' MiB'') = (of_nat (dec_value 0 ds * 1024 * 1024), None)"
    by (simp add: parseMemory_def Let_def)
  show "sint (fst (parseMemory (ds @ '' MiB''))) = int (dec_value 0 ds) * 1024 * 1024"
    unfolding m using sint_of_nat_small [OF big] by simp
next
  assume lt: "dec_value 0 ds < 2 ^ 63"
  show p: "parsePercentage (ds @ ''%'') = (of_nat (dec_value 0 ds), None)"
    using assms lt by (simp add: parsePercentage_def clean_percent ParseInt_digits)
  show "sint (fst (parsePercentage (ds @ ''%''))) = int (dec_value 0 ds)"
    unfolding p using sint_of_nat_small [OF lt] by simp
qed

theorem C2_normalizers_on_valid_strings_witness:
  "parseMemory ''1024 MiB'' = (1073741824, None) \<and>
   sint (fst (parseMemory ''1024 MiB'')) = 1073741824 \<and>
   parsePercentage ''42%'' = (42, None) \<and>
   sint (fst (parsePercentage ''42%'')) = 42"
  using C2_normalizers_on_valid_strings [of "''1024''"]
    C2_normalizers_on_valid_strings [of "''42''"]
  by (simp add: is_digit_def dec_value_def byte_def)

text \<open>
  The string \<open>"8796093022208 MiB"\<close> (\<open>n = 2^43\<close>) is parsed without error, and the
  product wraps around to \<open>- 2^63\<close>.
\<close>

theorem C2_memory_overflow_counterexample:
  "list_all is_digit ''8796093022208'' \<and>
   dec_value 0 ''8796093022208'' = 8796093022208 \<and>
   parseMemory ''8796093022208 MiB'' = (- 9223372036854775808, None) \<and>
   sint (fst (parseMemory ''8796093022208 MiB'')) \<noteq> 8796093022208 * 1024 * 1024"
proof -
  have a: "list_all is_digit ''8796093022208''" by (simp add: is_digit_def byte_def)
  have b: "dec_value 0 ''8796093022208'' = 8796093022208" by (simp add: dec_value_def byte_def)
  have c: "parseMemory ''8796093022208 MiB'' = (- 9223372036854775808, None)" by code_simp
  have d: "sint (- 9223372036854775808 :: 64 word) = - 9223372036854775808" by simp
  show ?thesis unfolding c using a b d by simp
qed

text \<open>
  C3. A field of a device record that fails to parse does not abort the record: a
  reading is still produced and the failed field is reported as zero. The code breaks
  this for the utilization field when the failure is a range error:
  \<open>parsePercentage\<close> hands on what \<^verbatim>\<open>strconv.ParseInt\<close> returned with the error, the
  largest \<^verbatim>\<open>int64\<close>, and \<open>Collect\<close> reports it (\<open>parseMemory\<close> returns 0 with
  every error).
\<close>

theorem C3_failed_utilization_is_not_zero:
  "parsePercentage ''9223372036854775808%'' = (9223372036854775807, Some ErrRange) \<and>
   NvidiaSMICollector_Collect (Inr out)
     (\<lambda>out. Inr \<lparr>GPUs = [\<lparr>gpu_ID = ''0'', ProductName = ''Test-GPU'',
                     FBMemory = \<lparr>Used = ''1024 MiB''\<rparr>,
                     Utilization = \<lparr>GPUUtil = ''9223372036854775808%''\<rparr>\<rparr>]\<rparr>) =
     Inr [\<lparr>ID = ''0'', Name = ''Test-GPU'',
           MemoryUsedBytes = 1073741824, GPUUtilPercent = 9223372036854775807\<rparr>]"
proof -
  have mem: "parseMemory ''1024 MiB'' = (1073741824, None)" by code_simp
  have util: "parsePercentage ''9223372036854775808%'' = (9223372036854775807, Some ErrRange)"
    by code_simp
  show ?thesis
    by (simp add: NvidiaSMICollector_Collect_def mem util)
qed






text \<open>
  C6. Of two \<open>Collect\<close> calls in sequence on one collector, the second never returns or
  re-examines a line the first consumed: the cursor only moves forward. For each call
  \<open>call_outcome\<close> says what it did: the first consumed the positions from \<open>cursor c\<close> up
  to \<open>cursor c1\<close> (excluded), the second those from \<open>cursor c1\<close> up to \<open>cursor c2\<close>; the
  lines consumed are echoed in this order; and a result that comes from a line (or from
  an error of the scanner) comes from the last position its call consumed, the first
  that is not a non-matching line. So the line behind the second result stands at
  \<open>cursor c2 - 1\<close>, which is not below \<open>cursor c1\<close>, and every line the first call
  consumed stands below \<open>cursor c1\<close>. Each call reads only the positions from its old
  cursor to its new one: it returns the same on every stream that agrees with \<open>src\<close>
  there (the position of the new cursor itself is read only by a call that finds the end
  of the stream there, which consumes nothing). Both collectors.
\<close>

theorem C6_cursor_only_advances:
  "(DynologCollector_Collect src unm c = Some (r1, c1) \<and>
    DynologCollector_Collect src unm c1 = Some (r2, c2) \<longrightarrow>
      cursor c \<le> cursor c1 \<and> cursor c1 \<le> cursor c2 \<and>
      call_outcome unm Inl (Inl (Msg ''no dynolog JSON lines found yet'')) src c (r1, c1) \<and>
      call_outcome unm Inl (Inl (Msg ''no dynolog JSON lines found yet'')) src c1 (r2, c2) \<and>
      (\<forall>src'. (\<forall>i. cursor c \<le> i \<and> i \<le> cursor c1 \<longrightarrow> src' i = src i) \<longrightarrow>
         DynologCollector_Collect src' unm c = Some (r1, c1)) \<and>
      (\<forall>src'. (\<forall>i. cursor c1 \<le> i \<and> i \<le> cursor c2 \<longrightarrow> src' i = src i) \<longrightarrow>
         DynologCollector_Collect src' unm c1 = Some (r2, c2))) \<and>
   (DynologCollector_Collect_GPUData src rt c = Some (g1, d1) \<and>
    DynologCollector_Collect_GPUData src rt d1 = Some (g2, d2) \<longrightarrow>
      cursor c \<le> cursor d1 \<and> cursor d1 \<le> cursor d2 \<and>
      call_outcome (reading_of_json rt) (\<lambda>err. Inl (Wrap ''reading dynolog stderr: '' err))
        (Inl (Msg ''no dynolog JSON lines found yet'')) src c (g1, d1) \<and>
      call_outcome (reading_of_json rt) (\<lambda>err. Inl (Wrap ''reading dynolog stderr: '' err))
        (Inl (Msg ''no dynolog JSON lines found yet'')) src d1 (g2, d2) \<and>
      (\<forall>src'. (\<forall>i. cursor c \<le> i \<and> i \<le> cursor d1 \<longrightarrow> src' i = src i) \<longrightarrow>
         DynologCollector_Collect_GPUData src' rt c = Some (g1, d1)) \<and>
      (\<forall>src'. (\<forall>i. cursor d1 \<le> i \<and> i \<le> cursor d2 \<longrightarrow> src' i = src i) \<longrightarrow>
         DynologCollector_Collect_GPUData src' rt d1 = Some (g2, d2)))"
proof (rule conjI; rule impI)
  assume a: "DynologCollector_Collect src unm c = Some (r1, c1) \<and>
    DynologCollector_Collect src unm c1 = Some (r2, c2)"
  have t1: "trace_ok (\<lambda>src. DynologCollector_Collect src unm) unm Inl
      (Inl (Msg ''no dynolog JSON lines found yet'')) src c (r1, c1)"
    using a by (intro Collect_trace) simp
  have t2: "trace_ok (\<lambda>src. DynologCollector_Collect src unm) unm Inl
      (Inl (Msg ''no dynolog JSON lines found yet'')) src c1 (r2, c2)"
    using a by (intro Collect_trace) simp
  have o1: "call_outcome unm Inl (Inl (Msg ''no dynolog JSON lines found yet'')) src c (r1, c1)"
    and o2: "call_outcome unm Inl (Inl (Msg ''no dynolog JSON lines found yet'')) src c1 (r2, c2)"
    using t1 t2 by (simp_all add: trace_ok_def)
  have le: "cursor c \<le> cursor c1" "cursor c1 \<le> cursor c2"
    using o1 o2 by (auto simp: call_outcome_def Let_def)
  have i1: "\<forall>src'. (\<forall>i. cursor c \<le> i \<and> i \<le> cursor c1 \<longrightarrow> src' i = src i) \<longrightarrow>
         DynologCollector_Collect src' unm c = Some (r1, c1)"
    and i2: "\<forall>src'. (\<forall>i. cursor c1 \<le> i \<and> i \<le> cursor c2 \<longrightarrow> src' i = src i) \<longrightarrow>
         DynologCollector_Collect src' unm c1 = Some (r2, c2)"
    using t1 t2 by (simp_all add: trace_ok_def)
  show "cursor c \<le> cursor c1 \<and> cursor c1 \<le> cursor c2 \<and>
      call_outcome unm Inl (Inl (Msg ''no dynolog JSON lines found yet'')) src c (r1, c1) \<and>
      call_outcome unm Inl (Inl (Msg ''no dynolog JSON lines found yet'')) src c1 (r2, c2) \<and>
      (\<forall>src'. (\<forall>i. cursor c \<le> i \<and> i \<le> cursor c1 \<longrightarrow> src' i = src i) \<longrightarrow>
         DynologCollector_Collect src' unm c = Some (r1, c1)) \<and>
      (\<forall>src'. (\<forall>i. cursor c1 \<le> i \<and> i \<le> cursor c2 \<longrightarrow> src' i = src i) \<longrightarrow>
         DynologCollector_Collect src' unm c1 = Some (r2, c2))"
    using le o1 o2 i1 i2 by (intro conjI)
next
  assume a: "DynologCollector_Collect_GPUData src rt c = Some (g1, d1) \<and>
    DynologCollector_Collect_GPUData src rt d1 = Some (g2, d2)"
  have t1: "trace_ok (\<lambda>src. DynologCollector_Collect_GPUData src rt) (reading_of_json rt)
      (\<lambda>err. Inl (Wrap ''reading dynolog stderr: '' err))
      (Inl (Msg ''no dynolog JSON lines found yet'')) src c (g1, d1)"
    using a by (intro Collect_GPUData_trace) simp
  have t2: "trace_ok (\<lambda>src. DynologCollector_Collect_GPUData src rt) (reading_of_json rt)
      (\<lambda>err. Inl (Wrap ''reading dynolog stderr: '' err))
      (Inl (Msg ''no dynolog JSON lines found yet'')) src d1 (g2, d2)"
    using a by (intro Collect_GPUData_trace) simp
  have o1: "call_outcome (reading_of_json rt) (\<lambda>err. Inl (Wrap ''reading dynolog stderr: '' err))
        (Inl (Msg ''no dynolog JSON lines found yet'')) src c (g1, d1)"
    and o2: "call_outcome (reading_of_json rt) (\<lambda>err. Inl (Wrap ''reading dynolog stderr: '' err))
        (Inl (Msg ''no dynolog JSON lines found yet'')) src d1 (g2, d2)"
    using t1 t2 by (simp_all add: trace_ok_def)
  have le: "cursor c \<le> cursor d1" "cursor d1 \<le> cursor d2"
    using o1 o2 by (auto simp: call_outcome_def Let_def)
  have i1: "\<forall>src'. (\<forall>i. cursor c \<le> i \<and> i \<le> cursor d1 \<longrightarrow> src' i = src i) \<longrightarrow>
         DynologCollector_Collect_GPUData src' rt c = Some (g1, d1)"
    and i2: "\<forall>src'. (\<forall>i. cursor d1 \<le> i \<and> i \<le> cursor d2 \<longrightarrow> src' i = src i) \<longrightarrow>
         DynologCollector_Collect_GPUData src' rt d1 = Some (g2, d2)"
    using t1 t2 by (simp_all add: trace_ok_def)
  show "cursor c \<le> cursor d1 \<and> cursor d1 \<le> cursor d2 \<and>
      call_outcome (reading_of_json rt) (\<lambda>err. Inl (Wrap ''reading dynolog stderr: '' err))
        (Inl (Msg ''no dynolog JSON lines found yet'')) src c (g1, d1) \<and>
      call_outcome (reading_of_json rt) (\<lambda>err. Inl (Wrap ''reading dynolog stderr: '' err))
        (Inl (Msg ''no dynolog JSON lines found yet'')) src d1 (g2, d2) \<and>
      (\<forall>src'. (\<forall>i. cursor c \<le> i \<and> i \<le> cursor d1 \<longrightarrow> src' i = src i) \<longrightarrow>
         DynologCollector_Collect_GPUData src' rt c = Some (g1, d1)) \<and>
      (\<forall>src'. (\<forall>i. cursor d1 \<le> i \<and> i \<le> cursor d2 \<longrightarrow> src' i = src i) \<longrightarrow>
         DynologCollector_Collect_GPUData src' rt d1 = Some (g2, d2))"
    using le o1 o2 i1 i2 by (intro conjI)
qed

theorem C6_cursor_only_advances_witness:
  "DynologCollector_Collect example_stream example_Unmarshal \<lparr>cursor = 0, console = []\<rparr> =
     Some (example_Unmarshal ''{\"device\":0,\"sm_active_ratio\":\"0.5\"}'',
           \<lparr>cursor = 2,
            console = [''noise...'', ''data = {\"device\":0,\"sm_active_ratio\":\"0.5\"}'']\<rparr>) \<and>
   DynologCollector_Collect example_stream example_Unmarshal
       \<lparr>cursor = 2, console = [''noise...'', ''data = {\"device\":0,\"sm_active_ratio\":\"0.5\"}'']\<rparr> =
     Some (example_Unmarshal ''{}'',
           \<lparr>cursor = 3,
            console = [''noise...'', ''data = {\"device\":0,\"sm_active_ratio\":\"0.5\"}'',
                       ''data = {}'']\<rparr>) \<and>
   DynologCollector_Collect cut_stream example_Unmarshal \<lparr>cursor = 0, console = []\<rparr> =
     Some (example_Unmarshal ''{\"device\":0,\"sm_active_ratio\":\"0.5\"}'',
           \<lparr>cursor = 2,
            console = [''noise...'', ''data = {\"device\":0,\"sm_active_ratio\":\"0.5\"}'']\<rparr>) \<and>
   DynologCollector_Collect altered_stream example_Unmarshal
       \<lparr>cursor = 2, console = [''noise...'', ''data = {\"device\":0,\"sm_active_ratio\":\"0.5\"}'']\<rparr> =
     Some (example_Unmarshal ''{}'',
           \<lparr>cursor = 3,
            console = [''noise...'', ''data = {\"device\":0,\"sm_active_ratio\":\"0.5\"}'',
                       ''data = {}'']\<rparr>) \<and>
   call_outcome example_Unmarshal Inl (Inl (Msg ''no dynolog JSON lines found yet'')) example_stream
     \<lparr>cursor = 0, console = []\<rparr>
     (example_Unmarshal ''{\"device\":0,\"sm_active_ratio\":\"0.5\"}'',
      \<lparr>cursor = 2,
       console = [''noise...'', ''data = {\"device\":0,\"sm_active_ratio\":\"0.5\"}'']\<rparr>) \<and>
   call_outcome example_Unmarshal Inl (Inl (Msg ''no dynolog JSON lines found yet'')) example_stream
     \<lparr>cursor = 2, console = [''noise...'', ''data = {\"device\":0,\"sm_active_ratio\":\"0.5\"}'']\<rparr>
     (example_Unmarshal ''{}'',
      \<lparr>cursor = 3,
       console = [''noise...'', ''data = {\"device\":0,\"sm_active_ratio\":\"0.5\"}'',
                  ''data = {}'']\<rparr>) \<and>
   DynologCollector_Collect_GPUData long_line_stream example_runtime \<lparr>cursor = 0, console = []\<rparr> =
     Some (Inl (Wrap ''reading dynolog stderr: '' (Ext ''bufio.Scanner: token too long'')),
           \<lparr>cursor = 1, console = []\<rparr>) \<and>
   DynologCollector_Collect_GPUData long_line_stream example_runtime \<lparr>cursor = 1, console = []\<rparr> =
     Some (Inr [\<lparr>ID = ''<nil>'', Name = ''DCGM-GPU'', MemoryUsedBytes = 0, GPUUtilPercent = 0\<rparr>],
           \<lparr>cursor = 2, console = [''data = {}'']\<rparr>) \<and>
   call_outcome (reading_of_json example_runtime)
     (\<lambda>err. Inl (Wrap ''reading dynolog stderr: '' err))
     (Inl (Msg ''no dynolog JSON lines found yet'')) long_line_stream
     \<lparr>cursor = 0, console = []\<rparr>
     (Inl (Wrap ''reading dynolog stderr: '' (Ext ''bufio.Scanner: token too long'')),
      \<lparr>cursor = 1, console = []\<rparr>) \<and>
   call_outcome (reading_of_json example_runtime)
     (\<lambda>err. Inl (Wrap ''reading dynolog stderr: '' err))
     (Inl (Msg ''no dynolog JSON lines found yet'')) long_line_stream
     \<lparr>cursor = 1, console = []\<rparr>
     (Inr [\<lparr>ID = ''<nil>'', Name = ''DCGM-GPU'', MemoryUsedBytes = 0, GPUUtilPercent = 0\<rparr>],
      \<lparr>cursor = 2, console = [''data = {}'']\<rparr>)"
proof -
  have n: "FindStringSubmatch ''noise...'' = []" by code_simp
  have m: "FindStringSubmatch ''data = {\"device\":0,\"sm_active_ratio\":\"0.5\"}'' =
      [''data = {\"device\":0,\"sm_active_ratio\":\"0.5\"}'',
       ''{\"device\":0,\"sm_active_ratio\":\"0.5\"}'']"
    by code_simp
  have e: "FindStringSubmatch ''data = {}'' = [''data = {}'', ''{}'']" by code_simp
  define c0 :: collector where "c0 = \<lparr>cursor = 0, console = []\<rparr>"
  define c1 :: collector where
    "c1 = \<lparr>cursor = 2, console = [''noise...'', ''data = {\"device\":0,\"sm_active_ratio\":\"0.5\"}'']\<rparr>"
  define c2 :: collector where
    "c2 = \<lparr>cursor = 3,
           console = [''noise...'', ''data = {\"device\":0,\"sm_active_ratio\":\"0.5\"}'', ''data = {}'']\<rparr>"
  define r1 where "r1 = example_Unmarshal ''{\"device\":0,\"sm_active_ratio\":\"0.5\"}''"
  define r2 where "r2 = example_Unmarshal ''{}''"
  have first: "DynologCollector_Collect example_stream example_Unmarshal c0 = Some (r1, c1)"
    unfolding c0_def r1_def
    by (subst DynologCollector_Collect.simps,
        simp add: example_stream_def n Let_def,
        subst DynologCollector_Collect.simps,
        simp add: example_stream_def m Let_def c1_def
          split: sum.splits)
  have second: "DynologCollector_Collect example_stream example_Unmarshal c1 = Some (r2, c2)"
    unfolding r2_def
    by (subst DynologCollector_Collect.simps)
      (simp add: example_stream_def e Let_def c1_def c2_def
         split: sum.splits)
  note t = C6_cursor_only_advances
      [where src = example_stream and unm = example_Unmarshal and c = c0
         and ?r1.0 = r1 and ?c1.0 = c1 and ?r2.0 = r2 and ?c2.0 = c2,
       THEN conjunct1, THEN mp, OF conjI [OF first second]]
  have o1: "call_outcome example_Unmarshal Inl (Inl (Msg ''no dynolog JSON lines found yet''))
      example_stream c0 (r1, c1)"
    and o2: "call_outcome example_Unmarshal Inl (Inl (Msg ''no dynolog JSON lines found yet''))
      example_stream c1 (r2, c2)"
    and i1: "\<forall>src'. (\<forall>i. cursor c0 \<le> i \<and> i \<le> cursor c1 \<longrightarrow> src' i = example_stream i) \<longrightarrow>
         DynologCollector_Collect src' example_Unmarshal c0 = Some (r1, c1)"
    and i2: "\<forall>src'. (\<forall>i. cursor c1 \<le> i \<and> i \<le> cursor c2 \<longrightarrow> src' i = example_stream i) \<longrightarrow>
         DynologCollector_Collect src' example_Unmarshal c1 = Some (r2, c2)"
    using t by simp_all
  have "\<forall>i. cursor c0 \<le> i \<and> i \<le> cursor c1 \<longrightarrow> cut_stream i = example_stream i"
    by (simp add: c1_def cut_stream_def)
  then have cut: "DynologCollector_Collect cut_stream example_Unmarshal c0 = Some (r1, c1)"
    using i1 by blast
  have "\<forall>i. cursor c1 \<le> i \<and> i \<le> cursor c2 \<longrightarrow> altered_stream i = example_stream i"
    by (simp add: c1_def altered_stream_def)
  then have alt: "DynologCollector_Collect altered_stream example_Unmarshal c1 = Some (r2, c2)"
    using i2 by blast
  define d1 :: collector where "d1 = \<lparr>cursor = 1, console = []\<rparr>"
  define d2 :: collector where "d2 = \<lparr>cursor = 2, console = [''data = {}'']\<rparr>"
  define g1 :: "error + GPUData list" where
    "g1 = Inl (Wrap ''reading dynolog stderr: '' (Ext ''bufio.Scanner: token too long''))"
  define g2 :: "error + GPUData list" where
    "g2 = Inr [\<lparr>ID = ''<nil>'', Name = ''DCGM-GPU'', MemoryUsedBytes = 0, GPUUtilPercent = 0\<rparr>]"
  have rd: "reading_of_json example_runtime ''{}'' = g2" unfolding g2_def by code_simp
  have gfirst: "DynologCollector_Collect_GPUData long_line_stream example_runtime c0 = Some (g1, d1)"
    unfolding c0_def g1_def d1_def
    by (subst DynologCollector_Collect_GPUData.simps) (simp add: long_line_stream_def)
  have gsecond: "DynologCollector_Collect_GPUData long_line_stream example_runtime d1 = Some (g2, d2)"
    unfolding d1_def d2_def
    by (subst DynologCollector_Collect_GPUData.simps) (simp add: long_line_stream_def e Let_def rd)
  note u = C6_cursor_only_advances
      [where src = long_line_stream and rt = example_runtime and c = c0
         and ?g1.0 = g1 and ?d1.0 = d1 and ?g2.0 = g2 and ?d2.0 = d2,
       THEN conjunct2, THEN mp, OF conjI [OF gfirst gsecond]]
  have p1: "call_outcome (reading_of_json example_runtime)
      (\<lambda>err. Inl (Wrap ''reading dynolog stderr: '' err))
      (Inl (Msg ''no dynolog JSON lines found yet'')) long_line_stream c0 (g1, d1)"
    and p2: "call_outcome (reading_of_json example_runtime)
      (\<lambda>err. Inl (Wrap ''reading dynolog stderr: '' err))
      (Inl (Msg ''no dynolog JSON lines found yet'')) long_line_stream d1 (g2, d2)"
    using u by simp_all
  show ?thesis
    using first second cut alt o1 o2 gfirst gsecond p1 p2
    unfolding c0_def c1_def c2_def r1_def r2_def d1_def d2_def g1_def g2_def
    by (intro conjI)
qed




text \<open>
  C8. For every malformed input string (non-numeric content, or the numeric part absent)
  a normalizer returns an error and never panics; both normalizers are total on all
  strings. As stated this is false: a normalizer deletes the unit wherever it stands, so
  an input with the unit among the digits is read as a number. What holds: the
  normalizer returns an error (\<open>parseMemory\<close> with the value zero) for every input of
  which, once every occurrence of the unit is deleted and the surrounding white space is
  removed, what is left is not an optional sign followed by decimal digits
  (\<open>int_syntax\<close>). This covers every input with no digit at all, which gives
  \<open>(0, ErrSyntax)\<close> in both, and every input with a \<open>foreign\<close> character: an ASCII
  character that is no digit, no sign, no white space and no character of the unit
  survives the deletion and the trimming, wherever it stands. The model has no panic to
  reach: both functions are total, the one index read outside a loop guard (\<^verbatim>\<open>s[i]\<close> in
  \<^verbatim>\<open>TrimRightFunc\<close>) is in range by \<open>TrimRightFunc_in_bounds\<close>, and \<^verbatim>\<open>s[0]\<close> in
  \<^verbatim>\<open>ParseInt\<close> is read only of a non-empty string.
\<close>

theorem C8_malformed_input_is_an_error:
  "(\<not> int_syntax (TrimSpace (ReplaceAll val ''MiB'' '''')) \<longrightarrow>
      fst (parseMemory val) = 0 \<and> snd (parseMemory val) \<noteq> None) \<and>
   (\<not> int_syntax (TrimSpace (ReplaceAll val ''%'' '''')) \<longrightarrow>
      snd (parsePercentage val) \<noteq> None) \<and>
   (\<not> list_ex is_digit val \<longrightarrow>
      parseMemory val = (0, Some ErrSyntax) \<and> parsePercentage val = (0, Some ErrSyntax)) \<and>
   (list_ex (foreign ''MiB'') val \<longrightarrow>
      fst (parseMemory val) = 0 \<and> snd (parseMemory val) \<noteq> None) \<and>
   (list_ex (foreign ''%'') val \<longrightarrow> snd (parsePercentage val) \<noteq> None)"
proof -
  have m: "fst (parseMemory val) = 0 \<and> snd (parseMemory val) \<noteq> None"
    if "\<not> int_syntax (TrimSpace (ReplaceAll val ''MiB'' ''''))"
  proof -
    have e: "snd (ParseInt (TrimSpace (ReplaceAll val ''MiB'' ''''))) \<noteq> None"
      using that by (rule ParseInt_malformed)
    then show ?thesis by (simp add: parseMemory_def Let_def)
  qed
  have p: "snd (parsePercentage val) \<noteq> None"
    if "\<not> int_syntax (TrimSpace (ReplaceAll val ''%'' ''''))"
    using that unfolding parsePercentage_def by (rule ParseInt_malformed)
  have n: "parseMemory val = (0, Some ErrSyntax) \<and> parsePercentage val = (0, Some ErrSyntax)"
    if nd: "\<not> list_ex is_digit val"
  proof
    show "parseMemory val = (0, Some ErrSyntax)"
      using ParseInt_no_digit [OF clean_no_digit [OF nd, of "''MiB''"]]
      by (simp add: parseMemory_def Let_def)
    show "parsePercentage val = (0, Some ErrSyntax)"
      using ParseInt_no_digit [OF clean_no_digit [OF nd, of "''%''"]]
      by (simp add: parsePercentage_def)
  qed
  have fm: "fst (parseMemory val) = 0 \<and> snd (parseMemory val) \<noteq> None"
    if "list_ex (foreign ''MiB'') val"
    using that by (intro m foreign_cleaned) simp_all
  have fp: "snd (parsePercentage val) \<noteq> None" if "list_ex (foreign ''%'') val"
    using that by (intro p foreign_cleaned) simp_all
  have m2: "\<not> int_syntax (TrimSpace (ReplaceAll val ''MiB'' '''')) \<longrightarrow>
      fst (parseMemory val) = 0 \<and> snd (parseMemory val) \<noteq> None"
    using m by (rule impI)
  have p2: "\<not> int_syntax (TrimSpace (ReplaceAll val ''%'' '''')) \<longrightarrow>
      snd (parsePercentage val) \<noteq> None"
    using p by (rule impI)
  have n2: "\<not> list_ex is_digit val \<longrightarrow>
      parseMemory val = (0, Some ErrSyntax) \<and> parsePercentage val = (0, Some ErrSyntax)"
    using n by (rule impI)
  have fm2: "list_ex (foreign ''MiB'') val \<longrightarrow>
      fst (parseMemory val) = 0 \<and> snd (parseMemory val) \<noteq> None"
    using fm by (rule impI)
  have fp2: "list_ex (foreign ''%'') val \<longrightarrow> snd (parsePercentage val) \<noteq> None"
    using fp by (rule impI)
  show ?thesis using m2 p2 n2 fm2 fp2 by (intro conjI)
qed

theorem C8_malformed_input_is_an_error_witness:
  "fst (parseMemory ''12x MiB'') = 0 \<and> snd (parseMemory ''12x MiB'') \<noteq> None \<and>
   snd (parsePercentage ''4 2%'') \<noteq> None \<and>
   parseMemory ''N/A'' = (0, Some ErrSyntax) \<and> parsePercentage ''N/A'' = (0, Some ErrSyntax) \<and>
   list_ex (foreign ''MiB'') ''12x MiB'' \<and> list_ex (foreign ''%'') ''4.2%'' \<and>
   snd (parsePercentage ''4.2%'') \<noteq> None"
proof -
  have a: "TrimSpace (ReplaceAll ''12x MiB'' ''MiB'' '''') = ''12x''" by code_simp
  have b: "TrimSpace (ReplaceAll ''4 2%'' ''%'' '''') = ''4 2''" by code_simp
  have na: "\<not> int_syntax ''12x''" by (simp add: int_syntax_def is_digit_def byte_def)
  have nb: "\<not> int_syntax ''4 2''" by (simp add: int_syntax_def is_digit_def byte_def)
  have nc: "\<not> list_ex is_digit ''N/A''" by (simp add: is_digit_def byte_def)
  have fa: "list_ex (foreign ''MiB'') ''12x MiB''"
    by (simp add: foreign_def is_digit_def asciiSpace_def byte_def)
  have fb: "list_ex (foreign ''%'') ''4.2%''"
    by (simp add: foreign_def is_digit_def asciiSpace_def byte_def)
  have 1: "fst (parseMemory ''12x MiB'') = 0 \<and> snd (parseMemory ''12x MiB'') \<noteq> None"
    using C8_malformed_input_is_an_error [of "''12x MiB''", THEN conjunct1] na
    unfolding a by (rule mp)
  have 2: "snd (parsePercentage ''4 2%'') \<noteq> None"
    using C8_malformed_input_is_an_error [of "''4 2%''", THEN conjunct2, THEN conjunct1] nb
    unfolding b by (rule mp)
  have 3: "parseMemory ''N/A'' = (0, Some ErrSyntax) \<and> parsePercentage ''N/A'' = (0, Some ErrSyntax)"
    using C8_malformed_input_is_an_error
      [of "''N/A''", THEN conjunct2, THEN conjunct2, THEN conjunct1] nc
    by (rule mp)
  have 4: "snd (parsePercentage ''4.2%'') \<noteq> None"
    using C8_malformed_input_is_an_error
      [of "''4.2%''", THEN conjunct2, THEN conjunct2, THEN conjunct2, THEN conjunct2] fb
    by (rule mp)
  show ?thesis using 1 2 3 fa fb 4 by (intro conjI) simp_all
qed

text \<open>
  Inputs that are not a number followed by the unit, and that the normalizers accept:
  \<open>"4%2"\<close> is read as 42, \<open>"1MiB0"\<close> as 10 MiB and \<open>"MiB 5 MiB"\<close> as 5 MiB, each without
  an error.
\<close>

theorem C8_unit_among_digits_counterexample:
  "\<not> well_formed ''%'' ''4%2'' \<and> parsePercentage ''4%2'' = (42, None) \<and>
   \<not> well_formed '' MiB'' ''1MiB0'' \<and> parseMemory ''1MiB0'' = (10485760, None) \<and>
   \<not> well_formed '' MiB'' ''MiB 5 MiB'' \<and> parseMemory ''MiB 5 MiB'' = (5242880, None)"
proof -
  have a: "\<not> well_formed ''%'' ''4%2''"
    by (simp add: well_formed_def)
  have b: "parsePercentage ''4%2'' = (42, None)" by code_simp
  have c: "\<not> well_formed '' MiB'' ''1MiB0''" by (simp add: well_formed_def)
  have d: "parseMemory ''1MiB0'' = (10485760, None)" by code_simp
  have e: "\<not> well_formed '' MiB'' ''MiB 5 MiB''"
    by (simp add: well_formed_def is_digit_def byte_def)
  have f: "parseMemory ''MiB 5 MiB'' = (5242880, None)" by code_simp
  show ?thesis using a b c d e f by (intro conjI)
qed

text \<open>
  C10. In the collector that parses the matched JSON into an untyped map, absent fields
  cause no error: when \<^verbatim>\<open>device\<close> is missing the reading's \<open>ID\<close> is the string
  \<^verbatim>\<open><nil>\<close>, and a missing or non-numeric \<^verbatim>\<open>gpu_memory_utilization\<close> or
  \<^verbatim>\<open>sm_active_ratio\<close> is treated as 0, which gives \<open>MemoryUsedBytes = 0\<close> and
  \<open>GPUUtilPercent = 0\<close>. Here \<open>l\<close> is the line at the cursor, it matches with the
  group \<open>payload\<close>, and \<open>j\<close> is the map \<^verbatim>\<open>json.Unmarshal\<close> makes of the payload.
\<close>

theorem C10_absent_fields_are_zero:
  assumes "src (cursor c) = Line l"
    and "FindStringSubmatch l = [whole, payload]"
    and "json_Unmarshal_map rt payload = Inr j"
  shows "\<exists>r. DynologCollector_Collect_GPUData src rt c =
              Some (Inr [r], c\<lparr>cursor := cursor c + 1, console := console c @ [l]\<rparr>) \<and>
            Name r = ''DCGM-GPU'' \<and>
            (map_of j ''device'' = None \<longrightarrow> ID r = ''<nil>'') \<and>
            (map_of j ''gpu_memory_utilization'' = None \<or>
               non_numeric (index_map j ''gpu_memory_utilization'') \<longrightarrow> MemoryUsedBytes r = 0) \<and>
            (map_of j ''sm_active_ratio'' = None \<or>
               non_numeric (index_map j ''sm_active_ratio'') \<longrightarrow> GPUUtilPercent r = 0)"
proof -
  define id where "id = Sprintf_v (FormatFloat_g rt) (index_map j ''device'')"
  define memUtil where "memUtil = parseOptionalFloat rt (index_map j ''gpu_memory_utilization'')"
  define util where "util = parseOptionalFloat rt (index_map j ''sm_active_ratio'')"
  define r where "r = \<lparr>ID = id, Name = ''DCGM-GPU'',
      MemoryUsedBytes = int64_of_float64 (int64_out_of_range rt)
         (fmul (fmul memUtil (float64_const 1024)) (float64_const 1024)),
      GPUUtilPercent = int64_of_float64 (int64_out_of_range rt) (fmul util (float64_const 100))\<rparr>"
  have reading: "reading_of_json rt payload = Inr [r]"
    using assms(3) by (simp add: reading_of_json_def Let_def r_def id_def memUtil_def util_def)
  have run: "DynologCollector_Collect_GPUData src rt c =
      Some (Inr [r], c\<lparr>cursor := cursor c + 1, console := console c @ [l]\<rparr>)"
    using assms(1,2) reading
    by (subst DynologCollector_Collect_GPUData.simps) (simp add: Let_def)
  have nn: "non_numeric (index_map j key)" if "map_of j key = None \<or> non_numeric (index_map j key)" for key
    using that by (auto simp: index_map_absent non_numeric_def)
  have dev: "ID r = ''<nil>''" if "map_of j ''device'' = None"
    using that by (simp add: r_def id_def index_map_absent)
  have mem: "MemoryUsedBytes r = 0"
    if "map_of j ''gpu_memory_utilization'' = None \<or> non_numeric (index_map j ''gpu_memory_utilization'')"
    using parseOptionalFloat_non_numeric [OF nn [OF that], of rt]
    by (simp add: r_def memUtil_def zero_times_const)
  have ut: "GPUUtilPercent r = 0"
    if "map_of j ''sm_active_ratio'' = None \<or> non_numeric (index_map j ''sm_active_ratio'')"
    using parseOptionalFloat_non_numeric [OF nn [OF that], of rt]
    by (simp add: r_def util_def zero_times_const)
  have name: "Name r = ''DCGM-GPU''" by (simp add: r_def)
  show ?thesis
  proof (intro exI [of _ r] conjI impI)
    show "DynologCollector_Collect_GPUData src rt c =
        Some (Inr [r], c\<lparr>cursor := cursor c + 1, console := console c @ [l]\<rparr>)"
      by (rule run)
    show "Name r = ''DCGM-GPU''" by (rule name)
    show "ID r = ''<nil>''" if "map_of j ''device'' = None" using that by (rule dev)
    show "MemoryUsedBytes r = 0"
      if "map_of j ''gpu_memory_utilization'' = None \<or>
          non_numeric (index_map j ''gpu_memory_utilization'')"
      using that by (rule mem)
    show "GPUUtilPercent r = 0"
      if "map_of j ''sm_active_ratio'' = None \<or> non_numeric (index_map j ''sm_active_ratio'')"
      using that by (rule ut)
  qed
qed

theorem C10_absent_fields_are_zero_witness:
  "DynologCollector_Collect_GPUData example_stream example_runtime
       \<lparr>cursor = 2, console = []\<rparr> =
     Some (Inr [\<lparr>ID = ''<nil>'', Name = ''DCGM-GPU'', MemoryUsedBytes = 0, GPUUtilPercent = 0\<rparr>],
           \<lparr>cursor = 3, console = [''data = {}'']\<rparr>)"
proof -
  have h1: "example_stream (cursor \<lparr>cursor = 2, console = []\<rparr>) = Line ''data = {}''"
    by (simp add: example_stream_def)
  have h2: "FindStringSubmatch ''data = {}'' = [''data = {}'', ''{}'']" by code_simp
  have h3: "json_Unmarshal_map example_runtime ''{}'' = Inr []"
    by (simp add: example_runtime_def)
  from C10_absent_fields_are_zero
        [where src = example_stream and c = "\<lparr>cursor = 2, console = []\<rparr>" and rt = example_runtime,
         OF h1 h2 h3]
  obtain r where all: "DynologCollector_Collect_GPUData example_stream example_runtime
        \<lparr>cursor = 2, console = []\<rparr> =
      Some (Inr [r], \<lparr>cursor = 2, console = []\<rparr>
              \<lparr>cursor := cursor \<lparr>cursor = 2, console = []\<rparr> + 1,
               console := console \<lparr>cursor = 2, console = []\<rparr> @ [''data = {}'']\<rparr>) \<and>
      Name r = ''DCGM-GPU'' \<and>
      (map_of ([] :: (string \<times> json) list) ''device'' = None \<longrightarrow> ID r = ''<nil>'') \<and>
      (map_of ([] :: (string \<times> json) list) ''gpu_memory_utilization'' = None \<or>
         non_numeric (index_map [] ''gpu_memory_utilization'') \<longrightarrow> MemoryUsedBytes r = 0) \<and>
      (map_of ([] :: (string \<times> json) list) ''sm_active_ratio'' = None \<or>
         non_numeric (index_map [] ''sm_active_ratio'') \<longrightarrow> GPUUtilPercent r = 0)" ..
  have run: "DynologCollector_Collect_GPUData example_stream example_runtime
        \<lparr>cursor = 2, console = []\<rparr> = Some (Inr [r], \<lparr>cursor = 3, console = [''data = {}'']\<rparr>)"
    using all by simp
  have name: "Name r = ''DCGM-GPU''" and dev: "ID r = ''<nil>''"
    and mem: "MemoryUsedBytes r = 0" and ut: "GPUUtilPercent r = 0"
    using all by simp_all
  have "r = \<lparr>ID = ''<nil>'', Name = ''DCGM-GPU'', MemoryUsedBytes = 0, GPUUtilPercent = 0\<rparr>"
    using name dev mem ut by (cases r) simp
  then show ?thesis using run by simp
qed

end
